theory Spec2Isabelle
  imports Main "HOL-Library.List_Lexorder"
begin

section \<open>JavaScript strings and the string primitives the services use\<close>

text \<open>
  A JavaScript string is a sequence of UTF-16 code units; \<open>length\<close>, \<open>substring\<close>,
  \<open>includes\<close>, \<open>split\<close>, \<open>trim\<close> and the regular expressions of the services (none of
  which carries the \<open>u\<close> flag) all work on code units. A code unit is modelled by its
  number. \<open>ascii\<close> turns an Isabelle string literal into such a string.
\<close>

type_synonym jschar = nat
type_synonym jsstring = "jschar list"

definition ascii :: "string \<Rightarrow> jsstring" where
  "ascii s = map of_char s"

text \<open>The regular-expression classes \<open>\d\<close> and \<open>\s\<close>, and the line terminators that \<open>.\<close>
  refuses to match (no \<open>s\<close> flag anywhere in the source).\<close>

definition isDigit :: "jschar \<Rightarrow> bool" where
  "isDigit c = (48 \<le> c \<and> c \<le> 57)"

definition isLineTerminator :: "jschar \<Rightarrow> bool" where
  "isLineTerminator c = (c = 10 \<or> c = 13 \<or> c = 8232 \<or> c = 8233)"

definition isSpace :: "jschar \<Rightarrow> bool" where
  "isSpace c = (c = 9 \<or> c = 10 \<or> c = 11 \<or> c = 12 \<or> c = 13 \<or> c = 32 \<or> c = 160
     \<or> c = 5760 \<or> (8192 \<le> c \<and> c \<le> 8202) \<or> c = 8232 \<or> c = 8233 \<or> c = 8239
     \<or> c = 8287 \<or> c = 12288 \<or> c = 65279)"

text \<open>\<open>String.prototype.trim\<close> removes exactly the code units of \<open>\s\<close> at both ends.\<close>

definition trim :: "jsstring \<Rightarrow> jsstring" where
  "trim s = rev (dropWhile isSpace (rev (dropWhile isSpace s)))"

text \<open>\<open>Array.prototype.join\<close>.\<close>

fun join :: "jsstring \<Rightarrow> jsstring list \<Rightarrow> jsstring" where
  "join sep [] = []"
| "join sep [x] = x"
| "join sep (x # y # ys) = x @ sep @ join sep (y # ys)"

text \<open>\<open>content.split("\n")\<close>: the pieces between the line feeds; the empty string gives
  one empty piece.\<close>

fun splitLines :: "jsstring \<Rightarrow> jsstring list" where
  "splitLines [] = [[]]"
| "splitLines (c # s) =
     (if c = 10 then [] # splitLines s
      else (case splitLines s of l # ls \<Rightarrow> (c # l) # ls | [] \<Rightarrow> [[c]]))"

text \<open>\<open>startsWith\<close>, \<open>endsWith\<close> and \<open>includes\<close>.\<close>

fun startsWith :: "jsstring \<Rightarrow> jsstring \<Rightarrow> bool" where
  "startsWith s [] = True"
| "startsWith [] (p # ps) = False"
| "startsWith (c # s) (p # ps) = (c = p \<and> startsWith s ps)"

definition endsWith :: "jsstring \<Rightarrow> jsstring \<Rightarrow> bool" where
  "endsWith s p = startsWith (rev s) (rev p)"

fun includesStr :: "jsstring \<Rightarrow> jsstring \<Rightarrow> bool" where
  "includesStr [] p = (p = [])"
| "includesStr (c # s) p = (startsWith (c # s) p \<or> includesStr s p)"

text \<open>
  \<open>String.prototype.toLowerCase\<close>. On a string of ASCII code units it maps \<open>A\<close>..\<open>Z\<close> to
  \<open>a\<close>..\<open>z\<close> and leaves the rest alone. On any other string the result comes from the
  Unicode case tables of the runtime, which are no part of the repository: they are the
  parameter \<open>lowerU\<close>.
\<close>

definition asciiLower :: "jschar \<Rightarrow> jschar" where
  "asciiLower c = (if 65 \<le> c \<and> c \<le> 90 then c + 32 else c)"

definition toLowerCase :: "(jsstring \<Rightarrow> jsstring) \<Rightarrow> jsstring \<Rightarrow> jsstring" where
  "toLowerCase lowerU s = (if list_all (\<lambda>c. c < 128) s then map asciiLower s else lowerU s)"

section \<open>The regular expressions of logService.ts\<close>

text \<open>
  A sequence of single-character classes, matched at the start of a string; the result is
  the rest of the string.
\<close>

fun matchSeq :: "(jschar \<Rightarrow> bool) list \<Rightarrow> jsstring \<Rightarrow> jsstring option" where
  "matchSeq [] s = Some s"
| "matchSeq (p # ps) [] = None"
| "matchSeq (p # ps) (c # s) = (if p c then matchSeq ps s else None)"

text \<open>A literal character; under the \<open>i\<close> flag an ASCII letter matches both of its cases
  (the canonicalisation of ECMAScript never maps a non-ASCII code unit to an ASCII one).\<close>

definition lit :: "bool \<Rightarrow> jschar \<Rightarrow> jschar \<Rightarrow> bool" where
  "lit ci p c = (if ci then asciiLower c = asciiLower p else c = p)"

text \<open>\<open>\d{4}-\d{2}-\d{2}T\d{2}:\d{2}:\d{2}\<close> and \<open>\.\d{3}\<close>.\<close>

definition tsCore :: "bool \<Rightarrow> (jschar \<Rightarrow> bool) list" where
  "tsCore ci =
     [isDigit, isDigit, isDigit, isDigit, lit ci 45, isDigit, isDigit, lit ci 45,
      isDigit, isDigit, lit ci 84, isDigit, isDigit, lit ci 58, isDigit, isDigit,
      lit ci 58, isDigit, isDigit]"

definition tsMillis :: "bool \<Rightarrow> (jschar \<Rightarrow> bool) list" where
  "tsMillis ci = [lit ci 46, isDigit, isDigit, isDigit]"

text \<open>
  The timestamp group. The optional milliseconds are greedy; giving them back never helps,
  because what would then have to follow starts with a dot. \<open>zRequired\<close> tells the \<open>Z\<close> of
  \<open>HEADER_RE\<close> from the \<open>Z?\<close> of the scanner's expression. The result is the matched text
  and the rest of the line.
\<close>

definition matchTimestamp :: "bool \<Rightarrow> bool \<Rightarrow> jsstring \<Rightarrow> (jsstring \<times> jsstring) option" where
  "matchTimestamp ci zRequired line =
     (case matchSeq (tsCore ci) line of
        None \<Rightarrow> None
      | Some r1 \<Rightarrow>
          let r2 = (case matchSeq (tsMillis ci) r1 of Some r \<Rightarrow> r | None \<Rightarrow> r1) in
          (case matchSeq [lit ci 90] r2 of
             Some r3 \<Rightarrow> Some (take (length line - length r3) line, r3)
           | None \<Rightarrow>
               if zRequired then None
               else Some (take (length line - length r2) line, r2)))"

text \<open>\<open>\s+\<close>: at least one white-space character; what follows it in the expressions
  below is never white space, so the run is taken whole.\<close>

definition spaces1 :: "jsstring \<Rightarrow> jsstring option" where
  "spaces1 s = (case s of [] \<Rightarrow> None | c # r \<Rightarrow> if isSpace c then Some (dropWhile isSpace r) else None)"

text \<open>\<open>\s+\[([^\]]+)\]\<close>: the token and the rest of the line.\<close>

definition bracketed :: "jsstring \<Rightarrow> (jsstring \<times> jsstring) option" where
  "bracketed s =
     (case spaces1 s of
        None \<Rightarrow> None
      | Some r \<Rightarrow>
          (case r of
             [] \<Rightarrow> None
           | c # r' \<Rightarrow>
               if c \<noteq> 91 then None
               else
                 let tok = takeWhile (\<lambda>x. x \<noteq> 93) r'; rest = dropWhile (\<lambda>x. x \<noteq> 93) r' in
                 if tok = [] \<or> rest = [] then None else Some (tok, tl rest)))"

text \<open>
  \<open>HEADER_RE\<close>, flag \<open>i\<close>:
  \<^verbatim>\<open>/^(\d{4}-\d{2}-\d{2}T\d{2}:\d{2}:\d{2}(?:\.\d{3})?Z)\s+\[([^\]]+)\]\s+\[([^\]]+)\]\s+(.*)$/i\<close>
  The result holds the four groups: timestamp, server, level, first chunk of the message.
  \<open>(.*)$\<close> has to reach the end of the line, and \<open>.\<close> matches no line terminator.
\<close>

definition matchHeader :: "jsstring \<Rightarrow> (jsstring \<times> jsstring \<times> jsstring \<times> jsstring) option" where
  "matchHeader line =
     (case matchTimestamp True True line of
        None \<Rightarrow> None
      | Some (ts, r0) \<Rightarrow>
          (case bracketed r0 of
             None \<Rightarrow> None
           | Some (serverFromLine, r1) \<Rightarrow>
               (case bracketed r1 of
                  None \<Rightarrow> None
                | Some (level, r2) \<Rightarrow>
                    (case spaces1 r2 of
                       None \<Rightarrow> None
                     | Some firstMsgChunk \<Rightarrow>
                         if list_ex isLineTerminator firstMsgChunk then None
                         else Some (ts, serverFromLine, level, firstMsgChunk)))))"

definition isHeader :: "jsstring \<Rightarrow> bool" where
  "isHeader line = (matchHeader line \<noteq> None)"

text \<open>\<open>/error/i.test(level)\<close>.\<close>

definition testError :: "jsstring \<Rightarrow> bool" where
  "testError level = includesStr (map asciiLower level) (ascii ''error'')"

section \<open>The environment of a call\<close>

text \<open>
  What the services read from outside: the log directory through \<open>fs\<close>, the clock and the
  date parser. \<open>readFile p = None\<close> stands for \<open>fs.readFileSync\<close> throwing, and
  \<open>dateParse s = None\<close> for \<open>new Date(s).getTime()\<close> being \<open>NaN\<close>. \<open>path.join\<close> of the
  directory and a file name read from it is the directory, a slash and the name.
  \<open>readdir = None\<close> stands for \<open>fs.readdirSync\<close> throwing and \<open>mtimeISO p = None\<close> for
  \<open>fs.statSync(p)\<close>, or the printing of its time, throwing; otherwise \<open>mtimeISO p\<close> is
  the modification time as \<open>toISOString\<close> prints it. The directory does not change during a call, and
  \<open>Date.now()\<close> gives the same value each time it is read in a call. Times are
  milliseconds since the epoch.
\<close>

record env =
  dirExists :: bool
  readdir :: "jsstring list option"
  logDir :: jsstring
  mtimeISO :: "jsstring \<Rightarrow> jsstring option"
  readFile :: "jsstring \<Rightarrow> jsstring option"
  now :: int
  dateParse :: "jsstring \<Rightarrow> int option"
  lowerU :: "jsstring \<Rightarrow> jsstring"

definition filePath :: "env \<Rightarrow> jsstring \<Rightarrow> jsstring" where
  "filePath e file = logDir e @ [47] @ file"

section \<open>types.ts\<close>

record LogEntry =
  timestamp :: jsstring
  level :: jsstring
  server_name :: jsstring
  tool_name :: "jsstring option"
  message :: jsstring
  error_code :: "jsstring option"
  stack_trace :: "jsstring option"
  request_id :: "jsstring option"

section \<open>getErrorsFromTextLog\<close>

text \<open>
  The inner \<open>while\<close> loop, from \<open>j = i + 1\<close>: empty lines are passed over, a header line
  stops the loop, every other line is pushed. The result is the pushed lines and the lines
  from index \<open>j\<close> on.
\<close>

fun collectBody :: "jsstring list \<Rightarrow> jsstring list \<times> jsstring list" where
  "collectBody [] = ([], [])"
| "collectBody (next # ls) =
     (if next = [] then collectBody ls
      else if isHeader next then ([], next # ls)
      else (next # fst (collectBody ls), snd (collectBody ls)))"

lemma collectBody_rest_le: "length (snd (collectBody ls)) \<le> length ls"
  by (induction ls) auto

text \<open>
  The filters. \<open>hours\<close> and \<open>toolName\<close> are optional arguments tested for truthiness: an
  absent value, the number \<open>0\<close> and the empty string switch the filter off. A comparison
  with \<open>NaN\<close> is false.
\<close>

definition tooOld :: "env \<Rightarrow> int option \<Rightarrow> jsstring \<Rightarrow> bool" where
  "tooOld e hours ts =
     (case hours of
        None \<Rightarrow> False
      | Some h \<Rightarrow>
          if h = 0 then False
          else (case dateParse e ts of
                  None \<Rightarrow> False
                | Some t \<Rightarrow> t < now e - h * 60 * 60 * 1000))"

definition toolMismatch :: "env \<Rightarrow> jsstring option \<Rightarrow> jsstring \<Rightarrow> bool" where
  "toolMismatch e toolName fullMessage =
     (case toolName of
        None \<Rightarrow> False
      | Some t \<Rightarrow>
          if t = [] then False
          else \<not> includesStr (toLowerCase (lowerU e) fullMessage) (toLowerCase (lowerU e) t))"

definition mkEntry :: "jsstring \<Rightarrow> jsstring \<Rightarrow> jsstring \<Rightarrow> jsstring \<Rightarrow> LogEntry" where
  "mkEntry serverName ts serverFromLine fullMessage =
     \<lparr> timestamp = ts, level = ascii ''ERROR'',
       server_name = (if serverName \<noteq> [] then serverName else serverFromLine),
       tool_name = None, message = fullMessage,
       error_code = None, stack_trace = None, request_id = None \<rparr>"

text \<open>
  The \<open>for\<close> loop over the lines from index \<open>i\<close> on, with the entries pushed so far.
  After a header that is kept or dropped by the tool filter the loop goes on at index
  \<open>j\<close>; once \<open>errors.length >= limit\<close> holds after a push it stops.
\<close>

function scanLines ::
  "env \<Rightarrow> jsstring \<Rightarrow> int \<Rightarrow> jsstring option \<Rightarrow> int option \<Rightarrow> jsstring list \<Rightarrow> LogEntry list
     \<Rightarrow> LogEntry list" where
  "scanLines e serverName limit toolName hours [] errors = errors"
| "scanLines e serverName limit toolName hours (line # ls) errors =
     (if line = [] then scanLines e serverName limit toolName hours ls errors
      else
        (case matchHeader line of
           None \<Rightarrow> scanLines e serverName limit toolName hours ls errors
         | Some (ts, serverFromLine, lvl, firstMsgChunk) \<Rightarrow>
             if \<not> testError lvl then scanLines e serverName limit toolName hours ls errors
             else if tooOld e hours ts then scanLines e serverName limit toolName hours ls errors
             else
               let fullMessage = trim (join [10] (firstMsgChunk # fst (collectBody ls))) in
               if toolMismatch e toolName fullMessage
               then scanLines e serverName limit toolName hours (snd (collectBody ls)) errors
               else
                 let errors' = errors @ [mkEntry serverName ts serverFromLine fullMessage] in
                 if int (length errors') \<ge> limit then errors'
                 else scanLines e serverName limit toolName hours (snd (collectBody ls)) errors'))"
  by pat_completeness auto
termination
proof (relation "measure (\<lambda>(e, serverName, limit, toolName, hours, ls, errors). length ls)",
    goal_cases)
  case 1
  show ?case by simp
next
  case 2
  show ?case by simp
next
  case 3
  show ?case by simp
next
  case 4
  show ?case by simp
next
  case 5
  show ?case by simp
next
  case (6 e serverName limit toolName hours line ls errors)
  show ?case using collectBody_rest_le [of ls] by simp
next
  case (7 e serverName limit toolName hours line ls errors)
  show ?case using collectBody_rest_le [of ls] by simp
qed

text \<open>What a call can throw: the error of \<open>getRecentErrors\<close> with its message, and the
  failures of \<open>fs.readFileSync\<close>, \<open>fs.readdirSync\<close> and \<open>fs.statSync\<close> where the source
  does not catch them, the first and the last with the path.\<close>

datatype error = NotFound jsstring | ReadFailure jsstring | ReaddirFailure | StatFailure jsstring

text \<open>\<open>getErrorsFromTextLog\<close>: the file is read (a failure of \<open>fs.readFileSync\<close> is not
  caught here), scanned, and the entries are returned in reverse.\<close>

definition getErrorsFromTextLog ::
  "env \<Rightarrow> jsstring \<Rightarrow> jsstring \<Rightarrow> int \<Rightarrow> jsstring option \<Rightarrow> int option \<Rightarrow> error + LogEntry list" where
  "getErrorsFromTextLog e logPath serverName limit toolName hours =
     (case readFile e logPath of
        None \<Rightarrow> Inl (ReadFailure logPath)
      | Some content \<Rightarrow>
          Inr (rev (scanLines e serverName limit toolName hours (splitLines content) [])))"

section \<open>getAvailableServers\<close>

record ServerInfo =
  server_name :: jsstring
  log_file_path :: jsstring
  last_modified :: jsstring
  total_errors :: nat
  recent_error_count :: nat

text \<open>\<open>file.replace(/\.(log|txt)$/, "")\<close>: the expression can only match the last four
  characters.\<close>

definition stripExtension :: "jsstring \<Rightarrow> jsstring" where
  "stripExtension file =
     (if endsWith file (ascii ''.log'') \<or> endsWith file (ascii ''.txt'')
      then take (length file - 4) file else file)"

text \<open>
  \<open>.replace(/^.*-/, "")\<close>: \<open>^\<close> holds at index 0 only, and the greedy \<open>.*\<close> stays
  before the first line terminator; the match is the longest such prefix that ends in a
  hyphen. Without a hyphen there the string is returned as it is.
\<close>

definition stripToLastHyphen :: "jsstring \<Rightarrow> jsstring" where
  "stripToLastHyphen s =
     (let firstLine = takeWhile (\<lambda>c. \<not> isLineTerminator c) s in
      if 45 \<in> set firstLine
      then drop (length firstLine - length (takeWhile (\<lambda>c. c \<noteq> 45) (rev firstLine))) s
      else s)"

definition deriveServerName :: "jsstring \<Rightarrow> jsstring" where
  "deriveServerName file = stripToLastHyphen (stripExtension file)"

text \<open>\<open>line.includes("ERROR") || line.includes("error")\<close>.\<close>

definition mentionsError :: "jsstring \<Rightarrow> bool" where
  "mentionsError line = (includesStr line (ascii ''ERROR'') \<or> includesStr line (ascii ''error''))"

text \<open>
  The inner part of the counting loop: the line starts with
  \<^verbatim>\<open>/^(\d{4}-\d{2}-\d{2}T\d{2}:\d{2}:\d{2}(?:\.\d{3})?Z?)/\<close> (no \<open>i\<close> flag), and the time
  of the matched text is greater than \<open>cutoffTime = Date.now() - 24 * 60 * 60 * 1000\<close>.
\<close>

definition isRecent :: "env \<Rightarrow> jsstring \<Rightarrow> bool" where
  "isRecent e line =
     (case matchTimestamp False False line of
        None \<Rightarrow> False
      | Some (ts, r) \<Rightarrow>
          (case dateParse e ts of
             None \<Rightarrow> False
           | Some t \<Rightarrow> t > now e - 24 * 60 * 60 * 1000))"

text \<open>The loop over the lines, with the two counters.\<close>

fun countErrors :: "env \<Rightarrow> jsstring list \<Rightarrow> nat \<times> nat \<Rightarrow> nat \<times> nat" where
  "countErrors e [] (totalErrors, recentErrors) = (totalErrors, recentErrors)"
| "countErrors e (line # ls) (totalErrors, recentErrors) =
     (if mentionsError line
      then countErrors e ls
             (totalErrors + 1, if isRecent e line then recentErrors + 1 else recentErrors)
      else countErrors e ls (totalErrors, recentErrors))"

text \<open>The record pushed for a file that passed the name test and whose \<open>fs.statSync\<close>
  returned, with the modification time it gave. A file that cannot be read keeps both
  counters at zero.\<close>

definition serverInfo :: "env \<Rightarrow> jsstring \<Rightarrow> jsstring \<Rightarrow> ServerInfo" where
  "serverInfo e file lastModified =
     (let p = filePath e file;
          counts = (case readFile e p of
                      None \<Rightarrow> (0, 0)
                    | Some content \<Rightarrow> countErrors e (splitLines content) (0, 0))
      in \<lparr> server_name = deriveServerName file, log_file_path = p,
           last_modified = lastModified,
           total_errors = fst counts, recent_error_count = snd counts \<rparr>)"

definition isLogFile :: "jsstring \<Rightarrow> bool" where
  "isLogFile file = (startsWith file (ascii ''mcp-server-'') \<and> endsWith file (ascii ''.log''))"

text \<open>The loop over the files of the directory, with the servers pushed so far.
  \<open>fs.statSync\<close> is outside the \<open>try\<close> block: when it throws, the call throws.\<close>

fun scanFiles :: "env \<Rightarrow> jsstring list \<Rightarrow> ServerInfo list \<Rightarrow> error + ServerInfo list" where
  "scanFiles e [] servers = Inr servers"
| "scanFiles e (file # files) servers =
     (if isLogFile file
      then (case mtimeISO e (filePath e file) of
              None \<Rightarrow> Inl (StatFailure (filePath e file))
            | Some lastModified \<Rightarrow>
                scanFiles e files (servers @ [serverInfo e file lastModified]))
      else scanFiles e files servers)"

definition getAvailableServers :: "env \<Rightarrow> error + ServerInfo list" where
  "getAvailableServers e =
     (if \<not> dirExists e then Inr []
      else (case readdir e of
              None \<Rightarrow> Inl ReaddirFailure
            | Some files \<Rightarrow> scanFiles e files []))"

section \<open>findLogPath and getRecentErrors\<close>

text \<open>\<open>replace(/-/g, "_")\<close> and \<open>replace(/_/g, "-")\<close>.\<close>

definition replaceAll :: "jschar \<Rightarrow> jschar \<Rightarrow> jsstring \<Rightarrow> jsstring" where
  "replaceAll a b s = map (\<lambda>c. if c = a then b else c) s"

definition nameMatches :: "jsstring \<Rightarrow> ServerInfo \<Rightarrow> bool" where
  "nameMatches serverName s =
     (server_name s = serverName
      \<or> replaceAll 45 95 (server_name s) = serverName
      \<or> replaceAll 95 45 (server_name s) = serverName)"

text \<open>\<open>servers.find(...)\<close> over the servers the scanner returned.\<close>

definition findServer :: "ServerInfo list \<Rightarrow> jsstring \<Rightarrow> ServerInfo option" where
  "findServer servers serverName = find (nameMatches serverName) servers"

definition findLogPath :: "env \<Rightarrow> jsstring \<Rightarrow> error + jsstring option" where
  "findLogPath e serverName =
     (case getAvailableServers e of
        Inl err \<Rightarrow> Inl err
      | Inr servers \<Rightarrow>
          (case findServer servers serverName of
             None \<Rightarrow> Inr None
           | Some server \<Rightarrow> Inr (Some (log_file_path server))))"

definition notFoundMessage :: "ServerInfo list \<Rightarrow> jsstring \<Rightarrow> jsstring" where
  "notFoundMessage servers serverName =
     ascii ''Log file not found for server: '' @ serverName @ ascii ''. Available servers: ''
       @ join (ascii '', '') (map server_name servers)"

text \<open>The \<open>throw\<close> of \<open>getRecentErrors\<close>: its message is built from a second call of
  \<open>getAvailableServers\<close>.\<close>

definition throwNotFound :: "env \<Rightarrow> jsstring \<Rightarrow> error" where
  "throwNotFound e serverName =
     (case getAvailableServers e of
        Inl err \<Rightarrow> err
      | Inr servers \<Rightarrow> NotFound (notFoundMessage servers serverName))"

text \<open>\<open>!logPath\<close> holds for \<open>null\<close> and for the empty string.\<close>

definition getRecentErrors ::
  "env \<Rightarrow> jsstring \<Rightarrow> int \<Rightarrow> jsstring option \<Rightarrow> int option \<Rightarrow> error + LogEntry list" where
  "getRecentErrors e serverName limit toolName hours =
     (case findLogPath e serverName of
        Inl err \<Rightarrow> Inl err
      | Inr None \<Rightarrow> Inl (throwNotFound e serverName)
      | Inr (Some logPath) \<Rightarrow>
          if logPath = [] then Inl (throwNotFound e serverName)
          else getErrorsFromTextLog e logPath serverName limit toolName hours)"

section \<open>generateErrorAnalysis and analyzeError\<close>

text \<open>Decimal digits of a number, as a template literal prints a count.\<close>

fun showNat :: "nat \<Rightarrow> jsstring" where
  "showNat n = (if n < 10 then [48 + n] else showNat (n div 10) @ [48 + n mod 10])"

declare showNat.simps [simp del]

definition hasAny :: "jsstring \<Rightarrow> jsstring list \<Rightarrow> bool" where
  "hasAny msg keywords = list_ex (includesStr msg) keywords"

text \<open>The chain of \<open>if\<close> / \<open>else if\<close> over the lower-cased message: the root cause and the
  actions pushed by the branch taken.\<close>

definition classify :: "jsstring \<Rightarrow> jsstring \<times> jsstring list" where
  "classify msg =
     (if includesStr msg (ascii ''permission'') \<or> includesStr msg (ascii ''unauthorized'')
         \<or> includesStr msg [44428, 54620] \<or> includesStr msg (ascii ''forbidden'')
      then (ascii ''Permission or authorization error'',
            [ascii ''Check if the required API credentials are properly configured'',
             ascii ''Verify that the API key or token has the necessary permissions'',
             ascii ''Ensure the user has access to the requested resource'',
             ascii ''Review the API documentation for required OAuth scopes or permissions''])
      else if includesStr msg (ascii ''rate limit'') \<or> includesStr msg (ascii ''too many requests'')
         \<or> includesStr msg (ascii ''429'')
      then (ascii ''API rate limit exceeded'',
            [ascii ''Implement exponential backoff for API requests'',
             ascii ''Reduce the frequency of API calls'',
             ascii ''Consider caching responses to minimize API usage'',
             ascii ''Check if you can upgrade to a higher rate limit tier''])
      else if includesStr msg (ascii ''timeout'') \<or> includesStr msg (ascii ''timed out'')
      then (ascii ''Request timeout'',
            [ascii ''Increase the timeout duration in the API configuration'',
             ascii ''Check network connectivity'',
             ascii ''Verify that the target service is responsive'',
             ascii ''Consider breaking large requests into smaller chunks''])
      else if includesStr msg (ascii ''not found'') \<or> includesStr msg (ascii ''404'')
      then (ascii ''Resource not found'',
            [ascii ''Verify that the resource ID or identifier is correct'',
             ascii ''Check if the resource has been deleted or moved'',
             ascii ''Ensure you'' @ [39] @ ascii ''re using the correct API endpoint'',
             ascii ''Confirm the resource exists before attempting to access it''])
      else if includesStr msg (ascii ''network'') \<or> includesStr msg (ascii ''connection'')
         \<or> includesStr msg (ascii ''econnrefused'')
      then (ascii ''Network connectivity issue'',
            [ascii ''Check your internet connection'',
             ascii ''Verify firewall settings are not blocking the connection'',
             ascii ''Try again after a short delay'',
             ascii ''Ensure the target service is online and accessible''])
      else if includesStr msg (ascii ''invalid'') \<or> includesStr msg (ascii ''malformed'')
         \<or> includesStr msg (ascii ''validation'')
      then (ascii ''Invalid input or malformed request'',
            [ascii ''Validate input parameters before making the API call'',
             ascii ''Check the API documentation for correct request format'',
             ascii ''Ensure all required fields are provided'',
             ascii ''Verify data types match the API expectations''])
      else if includesStr msg (ascii ''authentication'') \<or> includesStr msg (ascii ''unauthenticated'')
         \<or> includesStr msg (ascii ''401'')
      then (ascii ''Authentication failed'',
            [ascii ''Verify API credentials are correct and not expired'',
             ascii ''Check if the authentication token needs to be refreshed'',
             ascii ''Ensure credentials are properly configured in environment variables''])
      else if includesStr msg (ascii ''server error'') \<or> includesStr msg (ascii ''500'')
         \<or> includesStr msg (ascii ''503'')
      then (ascii ''Server-side error'',
            [ascii ''The error is on the service provider'' @ [39] @ ascii ''s side'',
             ascii ''Try again after a few minutes'',
             ascii ''Check the service status page for known outages'',
             ascii ''Contact the service provider if the issue persists''])
      else (ascii ''Unknown error occurred'', []))"

text \<open>The warning put in front when more than two related errors were handed over; its
  first two code units are the warning sign and its variation selector.\<close>

definition occurredWarning :: "nat \<Rightarrow> jsstring" where
  "occurredWarning n =
     [9888, 65039] @ ascii '' This error has occurred '' @ showNat n
       @ ascii '' times. Consider implementing a permanent fix rather than retrying.''"

definition firstOccurrence :: jsstring where
  "firstOccurrence = ascii ''This is the first occurrence of this error - monitor for patterns''"

definition generateErrorAnalysis ::
  "(jsstring \<Rightarrow> jsstring) \<Rightarrow> LogEntry \<Rightarrow> LogEntry list \<Rightarrow> jsstring \<times> jsstring list" where
  "generateErrorAnalysis lc err relatedErrors =
     (let base = classify (toLowerCase lc (message err));
          rootCause = fst base;
          suggestedActions = snd base
      in if length relatedErrors > 2
         then (rootCause, occurredWarning (length relatedErrors + 1) # suggestedActions)
         else if length relatedErrors = 0
         then (rootCause, suggestedActions @ [firstOccurrence])
         else (rootCause, suggestedActions))"

record ErrorAnalysis =
  error :: LogEntry
  root_cause :: jsstring
  suggested_actions :: "jsstring list"
  related_errors :: "LogEntry list"

definition MAX_LOG_SCAN_LIMIT :: int where
  "MAX_LOG_SCAN_LIMIT = 1000"

definition analyzeError ::
  "env \<Rightarrow> jsstring \<Rightarrow> jsstring \<Rightarrow> bool \<Rightarrow> error + ErrorAnalysis option" where
  "analyzeError e serverName errorMessage includeStackTrace =
     (case getRecentErrors e serverName MAX_LOG_SCAN_LIMIT None None of
        Inl err \<Rightarrow> Inl err
      | Inr errors \<Rightarrow>
          (case find (\<lambda>x. includesStr (toLowerCase (lowerU e) (message x))
                             (toLowerCase (lowerU e) errorMessage)) errors of
             None \<Rightarrow> Inr None
           | Some matchingError \<Rightarrow>
               let relatedErrors =
                     take 5 (filter (\<lambda>x. message x = message matchingError
                                          \<and> timestamp x \<noteq> timestamp matchingError) errors);
                   analysis = generateErrorAnalysis (lowerU e) matchingError relatedErrors
               in Inr (Some
                    \<lparr> error = (if includeStackTrace then matchingError
                                else matchingError\<lparr>stack_trace := None\<rparr>),
                      root_cause = fst analysis,
                      suggested_actions = snd analysis,
                      related_errors =
                        (if includeStackTrace then relatedErrors
                         else map (\<lambda>x. x\<lparr>stack_trace := None\<rparr>) relatedErrors) \<rparr>)))"

section \<open>truncateIfNeeded (formatter.ts)\<close>

definition CHARACTER_LIMIT :: nat where
  "CHARACTER_LIMIT = 25000"

definition truncationNotice :: "nat \<Rightarrow> jsstring" where
  "truncationNotice itemCount =
     [10, 10] @ ascii ''---'' @ [10, 10] @ ascii ''**'' @ [9888, 65039]
       @ ascii '' Response Truncated**'' @ [10, 10]
       @ ascii ''The full response exceeded '' @ showNat CHARACTER_LIMIT
       @ ascii '' characters. Showing first '' @ showNat (CHARACTER_LIMIT - 500)
       @ ascii '' characters of '' @ showNat itemCount @ ascii '' item(s).'' @ [10, 10]
       @ ascii ''To see more:'' @ [10]
       @ ascii ''- Use filters to narrow results (e.g., specify tool_name or hours)'' @ [10]
       @ ascii ''- Reduce the limit parameter'' @ [10]
       @ ascii ''- Query for specific errors using mcp_log_get_error_details''"

definition truncateIfNeeded :: "jsstring \<Rightarrow> nat \<Rightarrow> jsstring" where
  "truncateIfNeeded content itemCount =
     (if length content \<le> CHARACTER_LIMIT then content
      else
        let truncatedLength = CHARACTER_LIMIT - 500;
            truncated = take truncatedLength content
        in truncated @ truncationNotice itemCount)"

section \<open>The rule table of the specification\<close>

text \<open>
  The table of section 4.3 of the specification: the rules in priority order, each with its
  trigger keywords, its root cause and its actions.
\<close>

definition rules :: "(jsstring list \<times> jsstring \<times> jsstring list) list" where
  "rules =
     [([ascii ''permission'', ascii ''unauthorized'', [44428, 54620], ascii ''forbidden''],
       ascii ''Permission or authorization error'',
       [ascii ''Check if the required API credentials are properly configured'',
        ascii ''Verify that the API key or token has the necessary permissions'',
        ascii ''Ensure the user has access to the requested resource'',
        ascii ''Review the API documentation for required OAuth scopes or permissions'']),
      ([ascii ''rate limit'', ascii ''too many requests'', ascii ''429''],
       ascii ''API rate limit exceeded'',
       [ascii ''Implement exponential backoff for API requests'',
        ascii ''Reduce the frequency of API calls'',
        ascii ''Consider caching responses to minimize API usage'',
        ascii ''Check if you can upgrade to a higher rate limit tier'']),
      ([ascii ''timeout'', ascii ''timed out''],
       ascii ''Request timeout'',
       [ascii ''Increase the timeout duration in the API configuration'',
        ascii ''Check network connectivity'',
        ascii ''Verify that the target service is responsive'',
        ascii ''Consider breaking large requests into smaller chunks'']),
      ([ascii ''not found'', ascii ''404''],
       ascii ''Resource not found'',
       [ascii ''Verify that the resource ID or identifier is correct'',
        ascii ''Check if the resource has been deleted or moved'',
        ascii ''Ensure you'' @ [39] @ ascii ''re using the correct API endpoint'',
        ascii ''Confirm the resource exists before attempting to access it'']),
      ([ascii ''network'', ascii ''connection'', ascii ''econnrefused''],
       ascii ''Network connectivity issue'',
       [ascii ''Check your internet connection'',
        ascii ''Verify firewall settings are not blocking the connection'',
        ascii ''Try again after a short delay'',
        ascii ''Ensure the target service is online and accessible'']),
      ([ascii ''invalid'', ascii ''malformed'', ascii ''validation''],
       ascii ''Invalid input or malformed request'',
       [ascii ''Validate input parameters before making the API call'',
        ascii ''Check the API documentation for correct request format'',
        ascii ''Ensure all required fields are provided'',
        ascii ''Verify data types match the API expectations'']),
      ([ascii ''authentication'', ascii ''unauthenticated'', ascii ''401''],
       ascii ''Authentication failed'',
       [ascii ''Verify API credentials are correct and not expired'',
        ascii ''Check if the authentication token needs to be refreshed'',
        ascii ''Ensure credentials are properly configured in environment variables'']),
      ([ascii ''server error'', ascii ''500'', ascii ''503''],
       ascii ''Server-side error'',
       [ascii ''The error is on the service provider'' @ [39] @ ascii ''s side'',
        ascii ''Try again after a few minutes'',
        ascii ''Check the service status page for known outages'',
        ascii ''Contact the service provider if the issue persists''])]"

text \<open>First match wins; without a match the root cause is unknown and there is no action.\<close>

fun firstMatch ::
  "jsstring \<Rightarrow> (jsstring list \<times> jsstring \<times> jsstring list) list \<Rightarrow> jsstring \<times> jsstring list" where
  "firstMatch msg [] = (ascii ''Unknown error occurred'', [])"
| "firstMatch msg ((keywords, result) # rs) =
     (if hasAny msg keywords then result else firstMatch msg rs)"

section \<open>The header grammar of the specification\<close>

text \<open>A text has the shape of a sequence of character classes when it has one character
  for each class, in order.\<close>

definition shaped :: "(jschar \<Rightarrow> bool) list \<Rightarrow> jsstring \<Rightarrow> bool" where
  "shaped classes s = list_all2 (\<lambda>p c. p c) classes s"

text \<open>\<open>YYYY-MM-DDTHH:MM:SS\<close>, optionally followed by \<open>.mmm\<close>; the letter in either case,
  as \<open>HEADER_RE\<close> is case-insensitive.\<close>

definition dateTime :: "jsstring \<Rightarrow> bool" where
  "dateTime s = (\<exists>core ms. s = core @ ms \<and> shaped (tsCore True) core
                    \<and> (ms = [] \<or> shaped (tsMillis True) ms))"

text \<open>White space, an opening bracket, a non-empty token without a closing bracket, a
  closing bracket.\<close>

definition tagged :: "jsstring \<Rightarrow> jsstring \<Rightarrow> bool" where
  "tagged tok s = (\<exists>ws. s = ws @ [91] @ tok @ [93] \<and> ws \<noteq> [] \<and> list_all isSpace ws
                     \<and> tok \<noteq> [] \<and> 93 \<notin> set tok)"

section \<open>Sample environments\<close>

text \<open>
  A log directory \<open>/logs\<close> that exists and can be listed, and holds the given files, each
  with its content or unreadable, and each with a modification time; a date parser given by
  a table (every other text is an invalid date); the clock; the identity for the
  lower-casing of non-ASCII strings.
\<close>

definition sampleEnv :: "(jsstring \<times> jsstring option) list \<Rightarrow> (jsstring \<times> int) list \<Rightarrow> int \<Rightarrow> env" where
  "sampleEnv files dates t =
     \<lparr> dirExists = True, readdir = Some (map fst files), logDir = ascii ''/logs'',
       mtimeISO = (\<lambda>p. Some (ascii ''2025-10-30T00:00:00.000Z'')),
       readFile = (\<lambda>p. case map_of (map (\<lambda>(f, c). (ascii ''/logs/'' @ f, c)) files) p of
                        Some (Some c) \<Rightarrow> Some c | _ \<Rightarrow> None),
       now = t, dateParse = map_of dates, lowerU = id \<rparr>"

text \<open>A directory with one log file of four lines, scanned at 2025-10-29T20:00:00Z.\<close>

definition countSample :: jsstring where
  "countSample =
     ascii ''2025-10-29T18:00:46.468Z [ctx] [error] boom'' @ [10]
     @ ascii ''2024-01-01T00:00:00 plain ERROR, long ago'' @ [10]
     @ ascii ''Error: capitalised only'' @ [10]
     @ ascii ''an error without a timestamp''"

definition countEnv :: env where
  "countEnv =
     sampleEnv [(ascii ''mcp-server-ctx.log'', Some countSample)]
       [(ascii ''2025-10-29T18:00:46.468Z'', 1761760846468),
        (ascii ''2024-01-01T00:00:00'', 1704067200000)]
       1761768000000"

text \<open>The same directory with a log of one line dated 2035.\<close>

definition futureEnv :: env where
  "futureEnv =
     sampleEnv
       [(ascii ''mcp-server-ctx.log'', Some (ascii ''2035-01-01T00:00:00.000Z [ctx] [error] not yet''))]
       [(ascii ''2035-01-01T00:00:00.000Z'', 2051222400000)]
       1761768000000"

text \<open>A directory with a readable log of one error entry and a log that cannot be read.\<close>

definition failureEnv :: env where
  "failureEnv =
     sampleEnv
       [(ascii ''mcp-server-slack.log'',
         Some (ascii ''2025-10-29T18:00:46.468Z [slack] [error] missing_scope: chat:write'')),
        (ascii ''mcp-server-github.log'', None)]
       [] 0"

text \<open>The same directory when the second entry is a link to nothing: \<open>fs.statSync\<close>
  throws for it.\<close>

definition danglingEnv :: env where
  "danglingEnv =
     failureEnv\<lparr>mtimeISO :=
       (\<lambda>p. if p = ascii ''/logs/mcp-server-github.log'' then None
            else Some (ascii ''2025-10-30T00:00:00.000Z''))\<rparr>"

section \<open>The record extractor of the specification\<close>

text \<open>
  The message that section 4.1 of the specification gives an error header: the rest of the
  header line and every following line up to, and without, the next header line; the empty
  lines are left out, the others are joined by line feeds, and the result is trimmed.
\<close>

definition messageOf :: "jsstring \<Rightarrow> jsstring list \<Rightarrow> jsstring" where
  "messageOf restOfLine following =
     trim (join [10] (restOfLine # filter (\<lambda>l. l \<noteq> []) (takeWhile (\<lambda>l. \<not> isHeader l) following)))"

text \<open>The entries of all error headers of a file, in file order.\<close>

fun candidates :: "jsstring \<Rightarrow> jsstring list \<Rightarrow> LogEntry list" where
  "candidates serverName [] = []"
| "candidates serverName (line # following) =
     (case matchHeader line of
        None \<Rightarrow> candidates serverName following
      | Some (ts, serverFromLine, lvl, restOfLine) \<Rightarrow>
          if testError lvl
          then mkEntry serverName ts serverFromLine (messageOf restOfLine following)
                 # candidates serverName following
          else candidates serverName following)"

text \<open>The recency and tool filters, read off an entry.\<close>

definition passes :: "env \<Rightarrow> jsstring option \<Rightarrow> int option \<Rightarrow> LogEntry \<Rightarrow> bool" where
  "passes e toolName hours x =
     (\<not> tooOld e hours (timestamp x) \<and> \<not> toolMismatch e toolName (message x))"

text \<open>A log with a message of several lines, an empty line inside it, a header that is
  no error and a line that belongs to no error.\<close>

definition extractSample :: jsstring where
  "extractSample =
     ascii ''2025-10-29T18:00:46.468Z [ctx] [error] Server disconnected'' @ [10]
     @ ascii ''  at foo'' @ [10]
     @ [10]
     @ ascii ''  at bar'' @ [10]
     @ ascii ''2025-10-29T18:00:47.000Z [ctx] [info] ok'' @ [10]
     @ ascii ''stray'' @ [10]
     @ ascii ''2025-10-29T18:00:48.000Z [ctx] [ERROR] again''"

definition extractEnv :: env where
  "extractEnv = sampleEnv [(ascii ''mcp-server-ctx.log'', Some extractSample)] [] 0"

text \<open>Two logs of two errors each, one in ascending and one in descending order of time.\<close>

definition orderEnv :: env where
  "orderEnv =
     sampleEnv
       [(ascii ''mcp-server-asc.log'',
         Some (ascii ''2025-10-28T09:00:00.000Z [a] [error] first'' @ [10]
               @ ascii ''2025-10-29T09:00:00.000Z [a] [error] second'')),
        (ascii ''mcp-server-desc.log'',
         Some (ascii ''2025-10-29T09:00:00.000Z [d] [error] first'' @ [10]
               @ ascii ''2025-10-28T09:00:00.000Z [d] [error] second''))]
       [] 0"

text \<open>A log of ten error entries with the message \<open>boom\<close>, one per second.\<close>

definition repeatTs :: "nat \<Rightarrow> jsstring" where
  "repeatTs d = ascii ''2025-10-29T18:00:0'' @ [48 + d] @ ascii ''Z''"

definition repeatLine :: "nat \<Rightarrow> jsstring" where
  "repeatLine d = repeatTs d @ ascii '' [s] [error] boom''"

definition repeatEntry :: "nat \<Rightarrow> LogEntry" where
  "repeatEntry d = mkEntry (ascii ''s'') (repeatTs d) (ascii ''s'') (ascii ''boom'')"

definition repeatLog :: jsstring where
  "repeatLog =
     repeatLine 0 @ [10] @ repeatLine 1 @ [10] @ repeatLine 2 @ [10] @ repeatLine 3 @ [10]
     @ repeatLine 4 @ [10] @ repeatLine 5 @ [10] @ repeatLine 6 @ [10] @ repeatLine 7 @ [10]
     @ repeatLine 8 @ [10] @ repeatLine 9"

definition repeatEnv :: env where
  "repeatEnv = sampleEnv [(ascii ''mcp-server-s.log'', Some repeatLog)] [] 0"

text \<open>The same log with an eleventh entry of the same message, ten seconds after the
  first.\<close>

definition lateTs :: jsstring where
  "lateTs = ascii ''2025-10-29T18:00:10Z''"

definition lateLine :: jsstring where
  "lateLine = lateTs @ ascii '' [s] [error] boom''"

definition lateEntry :: LogEntry where
  "lateEntry = mkEntry (ascii ''s'') lateTs (ascii ''s'') (ascii ''boom'')"

definition elevenLog :: jsstring where
  "elevenLog = repeatLog @ [10] @ lateLine"

definition elevenEnv :: env where
  "elevenEnv = sampleEnv [(ascii ''mcp-server-s.log'', Some elevenLog)] [] 0"

section \<open>Properties\<close>

subsection \<open>Substrings\<close>

lemma startsWith_iff: "startsWith s p \<longleftrightarrow> (\<exists>b. s = p @ b)"
  by (induction s p rule: startsWith.induct) auto

lemma includesStr_iff: "includesStr s p \<longleftrightarrow> (\<exists>a b. s = a @ p @ b)"
proof (induction s)
  case Nil
  then show ?case by auto
next
  case (Cons c s)
  show ?case
  proof
    assume "includesStr (c # s) p"
    then consider "startsWith (c # s) p" | "includesStr s p" by auto
    then show "\<exists>a b. c # s = a @ p @ b"
    proof cases
      case 1
      then obtain b where "c # s = p @ b" using startsWith_iff by blast
      then have "c # s = [] @ p @ b" by simp
      then show ?thesis by blast
    next
      case 2
      then obtain a b where "s = a @ p @ b" using Cons.IH by blast
      then have "c # s = (c # a) @ p @ b" by simp
      then show ?thesis by blast
    qed
  next
    assume "\<exists>a b. c # s = a @ p @ b"
    then obtain a b where ab: "c # s = a @ p @ b" by blast
    show "includesStr (c # s) p"
    proof (cases a)
      case Nil
      with ab have "startsWith (c # s) p" using startsWith_iff by auto
      then show ?thesis by simp
    next
      case (Cons x a')
      with ab have "s = a' @ p @ b" by simp
      then have "includesStr s p" using Cons.IH by blast
      then show ?thesis by simp
    qed
  qed
qed

subsection \<open>Truncation of a formatted result\<close>

text \<open>
  Claim C9. A formatted result of at most \<open>CHARACTER_LIMIT\<close> characters is returned
  unchanged. A longer one becomes its first \<open>CHARACTER_LIMIT - 500\<close> characters followed
  by the fixed notice, which names the item count handed in and suggests narrower filters.
\<close>

theorem truncateIfNeeded_contract:
  "(length content \<le> CHARACTER_LIMIT \<longrightarrow> truncateIfNeeded content itemCount = content)
   \<and> (CHARACTER_LIMIT < length content \<longrightarrow>
        truncateIfNeeded content itemCount
          = take (CHARACTER_LIMIT - 500) content @ truncationNotice itemCount
        \<and> length (take (CHARACTER_LIMIT - 500) content) = CHARACTER_LIMIT - 500)
   \<and> includesStr (truncationNotice itemCount) (ascii ''of '' @ showNat itemCount @ ascii '' item(s)'')
   \<and> includesStr (truncationNotice itemCount) (ascii ''Use filters to narrow results'')"
proof (intro conjI impI)
  assume "length content \<le> CHARACTER_LIMIT"
  then show "truncateIfNeeded content itemCount = content"
    by (simp add: truncateIfNeeded_def)
next
  assume "CHARACTER_LIMIT < length content"
  then show "truncateIfNeeded content itemCount
      = take (CHARACTER_LIMIT - 500) content @ truncationNotice itemCount"
    by (simp add: truncateIfNeeded_def)
next
  assume "CHARACTER_LIMIT < length content"
  then show "length (take (CHARACTER_LIMIT - 500) content) = CHARACTER_LIMIT - 500"
    by (simp add: CHARACTER_LIMIT_def)
next
  have "truncationNotice itemCount
      = ([10, 10] @ ascii ''---'' @ [10, 10] @ ascii ''**'' @ [9888, 65039]
          @ ascii '' Response Truncated**'' @ [10, 10]
          @ ascii ''The full response exceeded '' @ showNat CHARACTER_LIMIT
          @ ascii '' characters. Showing first '' @ showNat (CHARACTER_LIMIT - 500)
          @ ascii '' characters '')
        @ (ascii ''of '' @ showNat itemCount @ ascii '' item(s)'')
        @ (ascii ''.'' @ [10, 10]
          @ ascii ''To see more:'' @ [10]
          @ ascii ''- Use filters to narrow results (e.g., specify tool_name or hours)'' @ [10]
          @ ascii ''- Reduce the limit parameter'' @ [10]
          @ ascii ''- Query for specific errors using mcp_log_get_error_details'')"
    by (simp add: truncationNotice_def ascii_def)
  then show "includesStr (truncationNotice itemCount)
      (ascii ''of '' @ showNat itemCount @ ascii '' item(s)'')"
    unfolding includesStr_iff by blast
next
  have "truncationNotice itemCount
      = ([10, 10] @ ascii ''---'' @ [10, 10] @ ascii ''**'' @ [9888, 65039]
          @ ascii '' Response Truncated**'' @ [10, 10]
          @ ascii ''The full response exceeded '' @ showNat CHARACTER_LIMIT
          @ ascii '' characters. Showing first '' @ showNat (CHARACTER_LIMIT - 500)
          @ ascii '' characters of '' @ showNat itemCount @ ascii '' item(s).'' @ [10, 10]
          @ ascii ''To see more:'' @ [10] @ ascii ''- '')
        @ ascii ''Use filters to narrow results''
        @ (ascii '' (e.g., specify tool_name or hours)'' @ [10]
          @ ascii ''- Reduce the limit parameter'' @ [10]
          @ ascii ''- Query for specific errors using mcp_log_get_error_details'')"
    by (simp add: truncationNotice_def ascii_def)
  then show "includesStr (truncationNotice itemCount) (ascii ''Use filters to narrow results'')"
    unfolding includesStr_iff by blast
qed

theorem truncateIfNeeded_contract_witness:
  "CHARACTER_LIMIT < length (replicate 25001 (120::nat))
   \<and> truncateIfNeeded (replicate 25001 120) 3 = replicate 24500 120 @ truncationNotice 3
   \<and> length (ascii ''ok'') \<le> CHARACTER_LIMIT
   \<and> truncateIfNeeded (ascii ''ok'') 3 = ascii ''ok''"
  using truncateIfNeeded_contract [of "replicate 25001 120" 3]
    truncateIfNeeded_contract [of "ascii ''ok''" 3]
  by (simp add: CHARACTER_LIMIT_def ascii_def)

subsection \<open>The classifier\<close>

lemma classify_firstMatch: "classify msg = firstMatch msg rules"
  by (simp add: classify_def rules_def hasAny_def)

lemma firstMatch_none:
  "\<forall>k \<in> set (concat (map fst rs)). \<not> includesStr msg k
     \<Longrightarrow> firstMatch msg rs = (ascii ''Unknown error occurred'', [])"
  by (induction rs) (auto simp: hasAny_def list_ex_iff)

lemmas string_eval =
  ascii_def toLowerCase_def asciiLower_def

lemma classify_403:
  "classify (toLowerCase lc (ascii ''403 Forbidden: missing scope''))
     = (ascii ''Permission or authorization error'',
        [ascii ''Check if the required API credentials are properly configured'',
         ascii ''Verify that the API key or token has the necessary permissions'',
         ascii ''Ensure the user has access to the requested resource'',
         ascii ''Review the API documentation for required OAuth scopes or permissions''])"
  by (simp add: classify_def string_eval)

lemma classify_timed_out:
  "fst (classify (toLowerCase lc (ascii ''Request timed out after 30s''))) = ascii ''Request timeout''"
  by (simp add: classify_def string_eval)

text \<open>
  Claim C7. The message \<open>403 Forbidden: missing scope\<close> gets the root cause
  \<open>Permission or authorization error\<close> and four base actions, \<open>Request timed out after 30s\<close>
  gets \<open>Request timeout\<close>, and a message whose lower-cased text contains none of the
  keywords of the table gets \<open>Unknown error occurred\<close> and no base action. The chain of
  the source is the table read in its order with the first match winning, on the lower-cased
  message; the related errors only add the warning in front or the first-occurrence note
  at the end.
\<close>

theorem classifier_rules:
  "fst (generateErrorAnalysis lc (err\<lparr>message := ascii ''403 Forbidden: missing scope''\<rparr>) related)
     = ascii ''Permission or authorization error''
   \<and> length (snd (classify (toLowerCase lc (ascii ''403 Forbidden: missing scope'')))) = 4
   \<and> fst (generateErrorAnalysis lc (err\<lparr>message := ascii ''Request timed out after 30s''\<rparr>) related)
     = ascii ''Request timeout''
   \<and> ((\<forall>k \<in> set (concat (map fst rules)). \<not> includesStr (toLowerCase lc msg) k)
        \<longrightarrow> classify (toLowerCase lc msg) = (ascii ''Unknown error occurred'', []))
   \<and> classify (toLowerCase lc msg) = firstMatch (toLowerCase lc msg) rules
   \<and> generateErrorAnalysis lc err related
     = (fst (firstMatch (toLowerCase lc (message err)) rules),
        (if 2 < length related then [occurredWarning (length related + 1)] else [])
          @ snd (firstMatch (toLowerCase lc (message err)) rules)
          @ (if related = [] then [firstOccurrence] else []))"
proof (intro conjI)
  show "fst (generateErrorAnalysis lc (err\<lparr>message := ascii ''403 Forbidden: missing scope''\<rparr>) related)
     = ascii ''Permission or authorization error''"
    by (simp add: generateErrorAnalysis_def classify_403 Let_def)
  show "length (snd (classify (toLowerCase lc (ascii ''403 Forbidden: missing scope'')))) = 4"
    by (simp add: classify_403)
  show "fst (generateErrorAnalysis lc (err\<lparr>message := ascii ''Request timed out after 30s''\<rparr>) related)
     = ascii ''Request timeout''"
    by (simp add: generateErrorAnalysis_def classify_timed_out Let_def)
  show "(\<forall>k \<in> set (concat (map fst rules)). \<not> includesStr (toLowerCase lc msg) k)
        \<longrightarrow> classify (toLowerCase lc msg) = (ascii ''Unknown error occurred'', [])"
    using firstMatch_none [of rules "toLowerCase lc msg"] by (simp add: classify_firstMatch)
  show "classify (toLowerCase lc msg) = firstMatch (toLowerCase lc msg) rules"
    by (rule classify_firstMatch)
  show "generateErrorAnalysis lc err related
     = (fst (firstMatch (toLowerCase lc (message err)) rules),
        (if 2 < length related then [occurredWarning (length related + 1)] else [])
          @ snd (firstMatch (toLowerCase lc (message err)) rules)
          @ (if related = [] then [firstOccurrence] else []))"
    by (simp add: generateErrorAnalysis_def classify_firstMatch Let_def)
qed

theorem classifier_rules_witness:
  "list_all (\<lambda>k. \<not> includesStr (toLowerCase id (ascii ''Segmentation Fault'')) k)
     (concat (map fst rules))
   \<and> classify (toLowerCase id (ascii ''Segmentation Fault'')) = (ascii ''Unknown error occurred'', [])"
proof -
  have h: "\<forall>k \<in> set (concat (map fst rules)).
       \<not> includesStr (toLowerCase id (ascii ''Segmentation Fault'')) k"
    by (simp add: rules_def string_eval)
  with classifier_rules [of id err related "ascii ''Segmentation Fault''"]
  show ?thesis unfolding list_all_iff by blast
qed

subsection \<open>The header expression\<close>

lemma matchSeq_shaped: "shaped ps xs \<Longrightarrow> matchSeq ps (xs @ r) = Some r"
  unfolding shaped_def by (induction ps xs rule: list_all2_induct) auto

lemma matchSeq_Some: "matchSeq ps s = Some r \<Longrightarrow> \<exists>xs. s = xs @ r \<and> shaped ps xs"
proof (induction ps s rule: matchSeq.induct)
  case (1 s)
  then show ?case by (simp add: shaped_def)
next
  case (2 p ps)
  then show ?case by simp
next
  case (3 p ps c s)
  then have pc: "p c" and m: "matchSeq ps s = Some r" by (auto split: if_splits)
  from "3.IH" [OF pc m] obtain xs where "s = xs @ r" "shaped ps xs" by blast
  then have "c # s = (c # xs) @ r \<and> shaped (p # ps) (c # xs)"
    using pc by (simp add: shaped_def)
  then show ?case by blast
qed

lemma millis_not_Z: "z = 90 \<or> z = 122 \<Longrightarrow> matchSeq (tsMillis True) (z # r) = None"
  by (auto simp: tsMillis_def lit_def asciiLower_def)

lemma lit_Z: "lit True 90 z \<longleftrightarrow> z = 90 \<or> z = 122"
  by (auto simp: lit_def asciiLower_def)

lemma matchTimestamp_accepts:
  assumes "dateTime dt" and "z = 90 \<or> z = 122"
  shows "matchTimestamp True True (dt @ [z] @ r) = Some (dt @ [z], r)"
proof -
  from assms(1) obtain core ms where dt: "dt = core @ ms" and core: "shaped (tsCore True) core"
    and ms: "ms = [] \<or> shaped (tsMillis True) ms"
    unfolding dateTime_def by blast
  have c: "matchSeq (tsCore True) (dt @ [z] @ r) = Some (ms @ z # r)"
    using matchSeq_shaped [OF core, of "ms @ z # r"] by (simp add: dt)
  have m: "(case matchSeq (tsMillis True) (ms @ z # r) of Some x \<Rightarrow> x | None \<Rightarrow> ms @ z # r) = z # r"
  proof (cases "ms = []")
    case True
    then show ?thesis using millis_not_Z [OF assms(2)] by simp
  next
    case False
    with ms have "shaped (tsMillis True) ms" by simp
    then show ?thesis using matchSeq_shaped [of "tsMillis True" ms "z # r"] by simp
  qed
  have t: "take (length (dt @ [z] @ r) - length r) (dt @ [z] @ r) = dt @ [z]"
    by simp
  show ?thesis
    unfolding matchTimestamp_def c using assms(2) t
    by (simp add: m Let_def lit_Z del: append.simps append_assoc)
qed

lemma spaces1_run:
  assumes "ws \<noteq> []" and "list_all isSpace ws"
  shows "spaces1 (ws @ r) = Some (dropWhile isSpace r)"
proof -
  from assms obtain c ws' where ws: "ws = c # ws'" by (cases ws) auto
  with assms(2) have c: "isSpace c" and rest: "\<forall>x \<in> set ws'. isSpace x"
    by (auto simp: list_all_iff)
  from rest have "dropWhile isSpace (ws' @ r) = dropWhile isSpace r"
    by (simp add: dropWhile_append)
  then show ?thesis by (simp add: spaces1_def ws c)
qed

lemma bracketed_accepts:
  assumes "tagged tok s"
  shows "bracketed (s @ r) = Some (tok, r)"
proof -
  from assms obtain ws where s: "s = ws @ [91] @ tok @ [93]" and ws: "ws \<noteq> []" "list_all isSpace ws"
    and tok: "tok \<noteq> []" "93 \<notin> set tok"
    unfolding tagged_def by blast
  have "\<not> isSpace 91" by (simp add: isSpace_def)
  then have sp: "spaces1 (ws @ 91 # tok @ 93 # r) = Some (91 # tok @ 93 # r)"
    using spaces1_run [OF ws, of "91 # tok @ 93 # r"] by simp
  have tw: "takeWhile (\<lambda>x. x \<noteq> 93) (tok @ 93 # r) = tok"
    using tok(2) by (simp add: takeWhile_append)
  have dw: "dropWhile (\<lambda>x. x \<noteq> 93) (tok @ 93 # r) = 93 # r"
    using tok(2) by (simp add: dropWhile_append)
  show ?thesis
    using tok(1) by (simp add: bracketed_def s sp tw dw)
qed

lemma no_terminator_dropWhile:
  "\<not> list_ex isLineTerminator rest \<Longrightarrow> \<not> list_ex isLineTerminator (dropWhile isSpace rest)"
  by (auto simp: list_ex_iff dest: set_dropWhileD)

lemma matchHeader_accepts:
  assumes "dateTime dt" and "z = 90 \<or> z = 122"
    and "tagged server s1" and "tagged lvl s2"
    and "ws \<noteq> []" and "list_all isSpace ws"
    and "\<not> list_ex isLineTerminator rest"
  shows "matchHeader (dt @ [z] @ s1 @ s2 @ ws @ rest)
           = Some (dt @ [z], server, lvl, dropWhile isSpace rest)"
proof -
  have 1: "matchTimestamp True True (dt @ [z] @ s1 @ s2 @ ws @ rest)
             = Some (dt @ [z], s1 @ s2 @ ws @ rest)"
    by (rule matchTimestamp_accepts [OF assms(1,2)])
  have 2: "bracketed (s1 @ s2 @ ws @ rest) = Some (server, s2 @ ws @ rest)"
    by (rule bracketed_accepts [OF assms(3)])
  have 3: "bracketed (s2 @ ws @ rest) = Some (lvl, ws @ rest)"
    by (rule bracketed_accepts [OF assms(4)])
  have 4: "spaces1 (ws @ rest) = Some (dropWhile isSpace rest)"
    by (rule spaces1_run [OF assms(5,6)])
  show ?thesis
    unfolding matchHeader_def 1 using no_terminator_dropWhile [OF assms(7)]
    by (simp add: 2 3 4)
qed

lemma matchTimestamp_Z:
  assumes "matchTimestamp True True line = Some (ts, r)"
  shows "\<exists>dt z. ts = dt @ [z] \<and> (z = 90 \<or> z = 122) \<and> dateTime dt \<and> line = ts @ r"
proof -
  from assms obtain r1 where r1: "matchSeq (tsCore True) line = Some r1"
    by (auto simp: matchTimestamp_def split: option.splits)
  define r2 where "r2 = (case matchSeq (tsMillis True) r1 of Some x \<Rightarrow> x | None \<Rightarrow> r1)"
  from assms r1 have z: "matchSeq [lit True 90] r2 = Some r"
    and ts: "ts = take (length line - length r) line"
    by (auto simp: matchTimestamp_def r2_def Let_def split: option.splits)
  from matchSeq_Some [OF r1] obtain core where core: "line = core @ r1" "shaped (tsCore True) core"
    by blast
  have "\<exists>ms. r1 = ms @ r2 \<and> (ms = [] \<or> shaped (tsMillis True) ms)"
  proof (cases "matchSeq (tsMillis True) r1")
    case None
    then show ?thesis by (simp add: r2_def)
  next
    case (Some x)
    from matchSeq_Some [OF Some] show ?thesis by (auto simp: r2_def Some)
  qed
  then obtain ms where ms: "r1 = ms @ r2" "ms = [] \<or> shaped (tsMillis True) ms" by blast
  from z obtain c where r2: "r2 = c # r" and c: "lit True 90 c"
    by (cases r2) (auto split: if_splits)
  have line: "line = (core @ ms) @ [c] @ r" by (simp add: core ms r2)
  then have "ts = (core @ ms) @ [c]" by (simp add: ts)
  moreover have "dateTime (core @ ms)" unfolding dateTime_def using core(2) ms(2) by blast
  ultimately show ?thesis using c line unfolding lit_Z by auto
qed

lemma matchHeader_timestamp:
  "matchHeader line = Some (ts, server, lvl, chunk)
     \<Longrightarrow> \<exists>r. matchTimestamp True True line = Some (ts, r)"
  by (auto simp: matchHeader_def split: option.splits if_splits)

text \<open>
  Claim C2, as the code has it. A line made of a date and time (with or without
  milliseconds), the letter \<open>Z\<close> in either case, two bracketed tokens each after white space,
  white space and a rest without line terminator is accepted, with the groups one expects;
  the first message chunk is the rest without its leading white space. And the timestamp of
  every accepted line ends in \<open>Z\<close> or \<open>z\<close>: a line whose timestamp lacks it is no header.
\<close>

theorem header_grammar:
  "(dateTime dt \<and> (z = 90 \<or> z = 122) \<and> tagged server s1 \<and> tagged lvl s2
      \<and> ws \<noteq> [] \<and> list_all isSpace ws \<and> \<not> list_ex isLineTerminator rest
    \<longrightarrow> matchHeader (dt @ [z] @ s1 @ s2 @ ws @ rest)
          = Some (dt @ [z], server, lvl, dropWhile isSpace rest))
   \<and> (matchHeader line = Some (ts, server', lvl', chunk)
    \<longrightarrow> (\<exists>dt' z'. ts = dt' @ [z'] \<and> (z' = 90 \<or> z' = 122) \<and> dateTime dt'
           \<and> startsWith line ts))"
proof (intro conjI impI)
  assume "dateTime dt \<and> (z = 90 \<or> z = 122) \<and> tagged server s1 \<and> tagged lvl s2
      \<and> ws \<noteq> [] \<and> list_all isSpace ws \<and> \<not> list_ex isLineTerminator rest"
  then show "matchHeader (dt @ [z] @ s1 @ s2 @ ws @ rest)
          = Some (dt @ [z], server, lvl, dropWhile isSpace rest)"
    using matchHeader_accepts by blast
next
  assume "matchHeader line = Some (ts, server', lvl', chunk)"
  from matchHeader_timestamp [OF this]
  obtain r where "matchTimestamp True True line = Some (ts, r)" by blast
  from matchTimestamp_Z [OF this]
  show "\<exists>dt' z'. ts = dt' @ [z'] \<and> (z' = 90 \<or> z' = 122) \<and> dateTime dt' \<and> startsWith line ts"
    unfolding startsWith_iff by blast
qed

lemmas regex_eval =
  matchHeader_def matchTimestamp_def tsCore_def tsMillis_def lit_def isDigit_def
  asciiLower_def bracketed_def spaces1_def isSpace_def isLineTerminator_def isHeader_def
  ascii_def Let_def

theorem header_grammar_witness:
  "dateTime (ascii ''2025-10-29T18:00:46.468'')
   \<and> tagged (ascii ''context7'') (ascii '' [context7]'')
   \<and> tagged (ascii ''error'') (ascii '' [error]'')
   \<and> matchHeader (ascii ''2025-10-29T18:00:46.468Z [context7] [error] Server disconnected'')
       = Some (ascii ''2025-10-29T18:00:46.468Z'', ascii ''context7'', ascii ''error'',
               ascii ''Server disconnected'')"
proof -
  have "ascii ''2025-10-29T18:00:46.468'' = ascii ''2025-10-29T18:00:46'' @ ascii ''.468''"
    by (simp add: ascii_def)
  moreover have "shaped (tsCore True) (ascii ''2025-10-29T18:00:46'')"
    by (simp add: shaped_def tsCore_def lit_def isDigit_def asciiLower_def ascii_def)
  moreover have "shaped (tsMillis True) (ascii ''.468'')"
    by (simp add: shaped_def tsMillis_def lit_def isDigit_def asciiLower_def ascii_def)
  ultimately have dt: "dateTime (ascii ''2025-10-29T18:00:46.468'')"
    unfolding dateTime_def by blast
  have "ascii '' [context7]'' = [32] @ [91] @ ascii ''context7'' @ [93]"
    by (simp add: ascii_def)
  moreover have "list_all isSpace [32]" by (simp add: isSpace_def)
  moreover have "93 \<notin> set (ascii ''context7'')" "ascii ''context7'' \<noteq> []"
    by (simp_all add: ascii_def)
  ultimately have t1: "tagged (ascii ''context7'') (ascii '' [context7]'')"
    unfolding tagged_def by blast
  have "ascii '' [error]'' = [32] @ [91] @ ascii ''error'' @ [93]"
    by (simp add: ascii_def)
  moreover have "list_all isSpace [32]" by (simp add: isSpace_def)
  moreover have "93 \<notin> set (ascii ''error'')" "ascii ''error'' \<noteq> []"
    by (simp_all add: ascii_def)
  ultimately have t2: "tagged (ascii ''error'') (ascii '' [error]'')"
    unfolding tagged_def by blast
  have ws: "[32] \<noteq> []" "list_all isSpace [32]" by (simp_all add: isSpace_def)
  have rest: "\<not> list_ex isLineTerminator (ascii ''Server disconnected'')"
    by (simp add: isLineTerminator_def ascii_def)
  have "matchHeader (ascii ''2025-10-29T18:00:46.468'' @ [90] @ ascii '' [context7]''
           @ ascii '' [error]'' @ [32] @ ascii ''Server disconnected'')
          = Some (ascii ''2025-10-29T18:00:46.468'' @ [90], ascii ''context7'', ascii ''error'',
                  dropWhile isSpace (ascii ''Server disconnected''))"
    using header_grammar [of "ascii ''2025-10-29T18:00:46.468''" 90 "ascii ''context7''"
        "ascii '' [context7]''" "ascii ''error''" "ascii '' [error]''" "[32]"
        "ascii ''Server disconnected''"] dt t1 t2 ws rest
    by blast
  then have "matchHeader (ascii ''2025-10-29T18:00:46.468Z [context7] [error] Server disconnected'')
       = Some (ascii ''2025-10-29T18:00:46.468Z'', ascii ''context7'', ascii ''error'',
               ascii ''Server disconnected'')"
    by (simp add: ascii_def isSpace_def)
  with dt t1 t2 show ?thesis by blast
qed

text \<open>The same line without the \<open>Z\<close> is not a header.\<close>

theorem header_without_Z_rejected:
  "matchHeader (ascii ''2025-10-29T18:00:46.468 [context7] [error] Server disconnected'') = None
   \<and> \<not> isHeader (ascii ''2025-10-29T18:00:46.468 [context7] [error] Server disconnected'')"
  by (simp add: regex_eval)

subsection \<open>Derived server names\<close>

lemma drop_to_last:
  "drop (length xs - length (takeWhile P (rev xs))) xs = rev (takeWhile P (rev xs))"
proof -
  have "rev xs = takeWhile P (rev xs) @ dropWhile P (rev xs)" by simp
  then have "xs = rev (dropWhile P (rev xs)) @ rev (takeWhile P (rev xs))"
    by (metis rev_append rev_rev_ident)
  moreover have "length (rev (dropWhile P (rev xs))) = length xs - length (takeWhile P (rev xs))"
    by (metis length_rev length_append add_diff_cancel_left' takeWhile_dropWhile_id)
  ultimately show ?thesis
    by (metis append_eq_conv_conj)
qed

lemma takeWhile_first_line:
  assumes "\<forall>x \<in> set a. P x"
  shows "takeWhile P (a @ dropWhile P s) = a"
proof -
  have "takeWhile P (dropWhile P s) = []"
    by (metis dropWhile_eq_Nil_conv takeWhile.simps(1) takeWhile_eq_Nil_iff hd_dropWhile)
  with assms show ?thesis by (simp add: takeWhile_append)
qed

text \<open>Whatever the string, the first line of what \<open>replace(/^.*-/, "")\<close> returns has no
  hyphen.\<close>

lemma stripToLastHyphen_first_line:
  "45 \<notin> set (takeWhile (\<lambda>c. \<not> isLineTerminator c) (stripToLastHyphen s))"
proof -
  let ?P = "\<lambda>c. \<not> isLineTerminator c"
  let ?fl = "takeWhile ?P s"
  let ?tail = "rev (takeWhile (\<lambda>c. c \<noteq> 45) (rev ?fl))"
  show ?thesis
  proof (cases "45 \<in> set ?fl")
    case False
    then show ?thesis by (simp add: stripToLastHyphen_def Let_def)
  next
    case True
    have s: "s = ?fl @ dropWhile ?P s" by simp
    have k: "length ?fl - length (takeWhile (\<lambda>c. c \<noteq> 45) (rev ?fl)) \<le> length ?fl" by simp
    have "drop (length ?fl - length (takeWhile (\<lambda>c. c \<noteq> 45) (rev ?fl))) s
            = drop (length ?fl - length (takeWhile (\<lambda>c. c \<noteq> 45) (rev ?fl))) ?fl @ dropWhile ?P s"
      using k by (metis s drop_append diff_is_0_eq drop0)
    then have d: "stripToLastHyphen s = ?tail @ dropWhile ?P s"
      using True by (simp add: stripToLastHyphen_def Let_def drop_to_last)
    have "set ?tail \<subseteq> set ?fl"
      by (metis set_rev set_takeWhileD subsetI)
    then have "\<forall>x \<in> set ?tail. ?P x"
      using set_takeWhileD [of _ ?P s] by blast
    then have "takeWhile ?P (?tail @ dropWhile ?P s) = ?tail" by (rule takeWhile_first_line)
    moreover have "45 \<notin> set ?tail" by (auto dest: set_takeWhileD)
    ultimately show ?thesis by (simp add: d)
  qed
qed

lemma stripToLastHyphen_suffix: "\<exists>a. s = a @ stripToLastHyphen s"
  by (auto simp: stripToLastHyphen_def Let_def intro: exI [of _ "[]"])
    (metis append_take_drop_id)

lemma stripExtension_prefix: "\<exists>b. file = stripExtension file @ b"
  by (auto simp: stripExtension_def intro: exI [of _ "[]"]) (metis append_take_drop_id)+

lemma deriveServerName_part: "set (deriveServerName file) \<subseteq> set file"
proof -
  obtain a where "stripExtension file = a @ deriveServerName file"
    using stripToLastHyphen_suffix [of "stripExtension file"] by (auto simp: deriveServerName_def)
  moreover obtain b where "file = stripExtension file @ b"
    using stripExtension_prefix by blast
  ultimately have "file = a @ deriveServerName file @ b" by simp
  then show ?thesis by (metis set_append Un_upper1 Un_upper2 subset_trans)
qed

lemma deriveServerName_no_hyphen:
  assumes "\<not> list_ex isLineTerminator file"
  shows "45 \<notin> set (deriveServerName file)"
proof -
  have "\<forall>c \<in> set (deriveServerName file). \<not> isLineTerminator c"
    using assms deriveServerName_part by (fastforce simp: list_ex_iff)
  then have tw: "takeWhile (\<lambda>c. \<not> isLineTerminator c) (deriveServerName file) = deriveServerName file"
    by (simp add: takeWhile_eq_all_conv)
  have "45 \<notin> set (takeWhile (\<lambda>c. \<not> isLineTerminator c) (deriveServerName file))"
    using stripToLastHyphen_first_line [of "stripExtension file"]
    by (simp add: deriveServerName_def)
  then show ?thesis unfolding tw .
qed

lemma replaceAll_absent: "a \<notin> set s \<Longrightarrow> replaceAll a b s = s"
  by (induction s) (auto simp: replaceAll_def)

lemma server_name_serverInfo: "server_name (serverInfo e file m) = deriveServerName file"
  by (simp add: serverInfo_def Let_def)

lemma log_file_path_serverInfo: "log_file_path (serverInfo e f m) = filePath e f"
  by (simp add: serverInfo_def Let_def)

lemma scanFiles_servers:
  "scanFiles e files servers = Inr result \<Longrightarrow> s \<in> set result
     \<Longrightarrow> s \<in> set servers
         \<or> (\<exists>f m. f \<in> set files \<and> isLogFile f \<and> mtimeISO e (filePath e f) = Some m
               \<and> s = serverInfo e f m)"
proof (induction files arbitrary: servers)
  case Nil
  then show ?case by simp
next
  case (Cons f files)
  show ?case
  proof (cases "isLogFile f")
    case False
    with Cons.prems have "scanFiles e files servers = Inr result" by simp
    from Cons.IH [OF this Cons.prems(2)] show ?thesis by auto
  next
    case True
    with Cons.prems(1) obtain m where m: "mtimeISO e (filePath e f) = Some m"
      and r: "scanFiles e files (servers @ [serverInfo e f m]) = Inr result"
      by (auto split: option.splits)
    from Cons.IH [OF r Cons.prems(2)] show ?thesis using True m by auto
  qed
qed

lemma scanFiles_error:
  "scanFiles e files servers = Inl err \<Longrightarrow> \<exists>p. err = StatFailure p"
  by (induction files arbitrary: servers) (auto split: if_splits option.splits)

lemma getAvailableServers_error:
  "getAvailableServers e = Inl err \<Longrightarrow> err = ReaddirFailure \<or> (\<exists>p. err = StatFailure p)"
  by (auto simp: getAvailableServers_def split: if_splits option.splits dest: scanFiles_error)

lemma getAvailableServers_names:
  "getAvailableServers e = Inr servers \<Longrightarrow> s \<in> set servers
     \<Longrightarrow> \<exists>files f m. readdir e = Some files \<and> f \<in> set files \<and> isLogFile f
           \<and> mtimeISO e (filePath e f) = Some m \<and> s = serverInfo e f m"
proof -
  assume a: "getAvailableServers e = Inr servers" and s: "s \<in> set servers"
  show ?thesis
  proof (cases "dirExists e")
    case False
    with a s show ?thesis by (simp add: getAvailableServers_def)
  next
    case True
    with a obtain files where files: "readdir e = Some files"
      and r: "scanFiles e files [] = Inr servers"
      by (auto simp: getAvailableServers_def split: option.splits)
    from scanFiles_servers [OF r s] files show ?thesis by auto
  qed
qed

lemmas scanner_eval =
  getAvailableServers_def sampleEnv_def isLogFile_def endsWith_def serverInfo_def filePath_def
  deriveServerName_def stripExtension_def stripToLastHyphen_def mentionsError_def
  isLineTerminator_def ascii_def Let_def

lemmas resolve_eval =
  findLogPath_def findServer_def nameMatches_def replaceAll_def getRecentErrors_def
  throwNotFound_def notFoundMessage_def

text \<open>
  Claim C10, as the code has it. The name derived from a file name without line terminator
  has no hyphen, so replacing hyphens by underscores leaves it as it is and the second
  comparison of \<open>findLogPath\<close> accepts nothing that the first does not accept. This holds
  for every server the scanner returns when no file name of the directory has a line
  terminator.
\<close>

theorem derived_name_no_hyphen:
  "(\<not> list_ex isLineTerminator file
      \<longrightarrow> 45 \<notin> set (deriveServerName file)
          \<and> (replaceAll 45 95 (deriveServerName file) = ident \<longrightarrow> deriveServerName file = ident))
   \<and> (getAvailableServers e = Inr servers \<and> readdir e = Some files
        \<and> (\<forall>f \<in> set files. \<not> list_ex isLineTerminator f)
      \<longrightarrow> (\<forall>s \<in> set servers.
            45 \<notin> set (server_name s)
            \<and> (replaceAll 45 95 (server_name s) = ident \<longrightarrow> server_name s = ident)))"
proof (intro conjI impI ballI)
  assume "\<not> list_ex isLineTerminator file"
  then show "45 \<notin> set (deriveServerName file)" by (rule deriveServerName_no_hyphen)
next
  assume "\<not> list_ex isLineTerminator file" and r: "replaceAll 45 95 (deriveServerName file) = ident"
  then have "45 \<notin> set (deriveServerName file)" using deriveServerName_no_hyphen by blast
  from replaceAll_absent [OF this] r show "deriveServerName file = ident" by simp
next
  fix s
  assume all: "getAvailableServers e = Inr servers \<and> readdir e = Some files
        \<and> (\<forall>f \<in> set files. \<not> list_ex isLineTerminator f)"
    and s: "s \<in> set servers"
  from all s getAvailableServers_names [of e servers s]
  obtain f m where f: "f \<in> set files" "s = serverInfo e f m" by auto
  with all have "45 \<notin> set (deriveServerName f)" using deriveServerName_no_hyphen by blast
  then show "45 \<notin> set (server_name s)" by (simp add: f server_name_serverInfo)
next
  fix s
  assume all: "getAvailableServers e = Inr servers \<and> readdir e = Some files
        \<and> (\<forall>f \<in> set files. \<not> list_ex isLineTerminator f)"
    and s: "s \<in> set servers"
    and r: "replaceAll 45 95 (server_name s) = ident"
  from all s getAvailableServers_names [of e servers s]
  obtain f m where f: "f \<in> set files" "s = serverInfo e f m" by auto
  with all have "45 \<notin> set (deriveServerName f)" using deriveServerName_no_hyphen by blast
  then have "45 \<notin> set (server_name s)" by (simp add: f server_name_serverInfo)
  from replaceAll_absent [OF this] r show "server_name s = ident" by simp
qed

theorem derived_name_no_hyphen_witness:
  "\<not> list_ex isLineTerminator (ascii ''mcp-server-github-bot.log'')
   \<and> deriveServerName (ascii ''mcp-server-github-bot.log'') = ascii ''bot''
   \<and> 45 \<notin> set (deriveServerName (ascii ''mcp-server-github-bot.log''))
   \<and> replaceAll 45 95 (deriveServerName (ascii ''mcp-server-github-bot.log'')) = ascii ''bot''"
proof -
  have h: "\<not> list_ex isLineTerminator (ascii ''mcp-server-github-bot.log'')"
    by (simp add: isLineTerminator_def ascii_def)
  have n: "deriveServerName (ascii ''mcp-server-github-bot.log'') = ascii ''bot''"
    by (simp add: scanner_eval)
  from h derived_name_no_hyphen [of "ascii ''mcp-server-github-bot.log''" "ascii ''bot''"]
  have "45 \<notin> set (deriveServerName (ascii ''mcp-server-github-bot.log''))" by blast
  with h n show ?thesis by (simp add: replaceAll_absent)
qed

text \<open>A file name with a line feed: the expression \<open>/^.*-/\<close> stops before the line feed,
  the hyphen after it stays, and the second comparison resolves an identifier that the
  first does not.\<close>

theorem line_feed_name_keeps_hyphen:
  "isLogFile (ascii ''mcp-server-a'' @ [10] @ ascii ''b-c.log'')
   \<and> deriveServerName (ascii ''mcp-server-a'' @ [10] @ ascii ''b-c.log'')
       = ascii ''a'' @ [10] @ ascii ''b-c''
   \<and> 45 \<in> set (deriveServerName (ascii ''mcp-server-a'' @ [10] @ ascii ''b-c.log''))
   \<and> replaceAll 45 95 (deriveServerName (ascii ''mcp-server-a'' @ [10] @ ascii ''b-c.log''))
       = ascii ''a'' @ [10] @ ascii ''b_c''
   \<and> deriveServerName (ascii ''mcp-server-a'' @ [10] @ ascii ''b-c.log'')
       \<noteq> ascii ''a'' @ [10] @ ascii ''b_c''
   \<and> findLogPath (sampleEnv [(ascii ''mcp-server-a'' @ [10] @ ascii ''b-c.log'', Some [])] [] 0)
         (ascii ''a'' @ [10] @ ascii ''b_c'')
       = Inr (Some (ascii ''/logs/mcp-server-a'' @ [10] @ ascii ''b-c.log''))"
  by (simp add: scanner_eval resolve_eval)

subsection \<open>Server-name resolution\<close>



text \<open>The scanner itself never returns a server of that name, whatever the file: for
  \<open>mcp-server-slack-mcp.log\<close> the derived name is \<open>mcp\<close>, and \<open>slack_mcp\<close> is reported
  as not found.\<close>

lemma deriveServerName_never_slack_mcp: "deriveServerName file \<noteq> ascii ''slack-mcp''"
proof
  assume eq: "deriveServerName file = ascii ''slack-mcp''"
  have "45 \<notin> set (takeWhile (\<lambda>c. \<not> isLineTerminator c) (deriveServerName file))"
    using stripToLastHyphen_first_line [of "stripExtension file"]
    by (simp add: deriveServerName_def)
  then show False
    unfolding eq by (simp add: isLineTerminator_def ascii_def)
qed

lemma slack_mcp_log_not_found:
  "map_sum id (map server_name)
     (getAvailableServers (sampleEnv [(ascii ''mcp-server-slack-mcp.log'', Some [])] [] 0))
     = Inr [ascii ''mcp'']"
  "findLogPath (sampleEnv [(ascii ''mcp-server-slack-mcp.log'', Some [])] [] 0)
     (ascii ''slack_mcp'') = Inr None"
  "getRecentErrors (sampleEnv [(ascii ''mcp-server-slack-mcp.log'', Some [])] [] 0)
     (ascii ''slack_mcp'') 10 None None
     = Inl (NotFound (ascii ''Log file not found for server: slack_mcp. Available servers: mcp''))"
  by (simp_all add: scanner_eval resolve_eval)



subsection \<open>The counters of the scanner\<close>

lemma countErrors_filter:
  "countErrors e ls (t, r)
     = (t + length (filter mentionsError ls),
        r + length (filter (\<lambda>l. mentionsError l \<and> isRecent e l) ls))"
  by (induction ls arbitrary: t r) auto

lemma isRecent_iff:
  "isRecent e line \<longleftrightarrow>
     (\<exists>ts r t. matchTimestamp False False line = Some (ts, r) \<and> dateParse e ts = Some t
        \<and> now e - t < 24 * 60 * 60 * 1000)"
  by (auto simp: isRecent_def split: option.splits)

lemma matchTimestamp_bare:
  "matchTimestamp False False line \<noteq> None \<longleftrightarrow> (\<exists>core r. line = core @ r \<and> shaped (tsCore False) core)"
proof
  assume "matchTimestamp False False line \<noteq> None"
  then obtain r1 where "matchSeq (tsCore False) line = Some r1"
    by (auto simp: matchTimestamp_def split: option.splits)
  from matchSeq_Some [OF this] show "\<exists>core r. line = core @ r \<and> shaped (tsCore False) core"
    by blast
next
  assume "\<exists>core r. line = core @ r \<and> shaped (tsCore False) core"
  then obtain core r where "line = core @ r" "shaped (tsCore False) core" by blast
  then have "matchSeq (tsCore False) line = Some r" using matchSeq_shaped by blast
  then show "matchTimestamp False False line \<noteq> None"
    by (simp add: matchTimestamp_def Let_def split: option.splits)
qed

lemma matchTimestamp_text:
  assumes "matchTimestamp ci zr line = Some (ts, r)"
  shows "line = ts @ r"
proof -
  from assms obtain r1 where r1: "matchSeq (tsCore ci) line = Some r1"
    by (auto simp: matchTimestamp_def split: option.splits)
  define r2 where "r2 = (case matchSeq (tsMillis ci) r1 of Some x \<Rightarrow> x | None \<Rightarrow> r1)"
  obtain a where a: "line = a @ r1" using matchSeq_Some [OF r1] by blast
  have "\<exists>b. r1 = b @ r2"
  proof (cases "matchSeq (tsMillis ci) r1")
    case None
    then show ?thesis by (simp add: r2_def)
  next
    case (Some x)
    from matchSeq_Some [OF Some] show ?thesis by (auto simp: r2_def Some)
  qed
  then obtain b where b: "r1 = b @ r2" by blast
  have "\<exists>c. r2 = c @ r \<and> ts = take (length line - length r) line"
  proof (cases "matchSeq [lit ci 90] r2")
    case None
    with assms r1 show ?thesis by (auto simp: matchTimestamp_def r2_def Let_def split: if_splits)
  next
    case (Some x)
    with assms r1 have "x = r" "ts = take (length line - length r) line"
      by (auto simp: matchTimestamp_def r2_def Let_def)
    with matchSeq_Some [OF Some] show ?thesis by auto
  qed
  then obtain c where c: "r2 = c @ r" and ts: "ts = take (length line - length r) line" by blast
  have "line = (a @ b @ c) @ r" by (simp add: a b c)
  then show ?thesis using ts by simp
qed

text \<open>
  Claim C8, as the code has it. For every server the scanner returns, the counters come
  from the lines of its file: \<open>total_errors\<close> is the number of lines that hold \<open>ERROR\<close> or
  \<open>error\<close> as a substring, and \<open>recent_error_count\<close> the number of those lines that start
  with a date and time (whatever follows: the milliseconds and the \<open>Z\<close> are optional and
  go into the text that is parsed) whose time is later than 24 hours before the scan. There
  is no upper bound: a time after the scan counts as well. A file that cannot be read has
  both counters at zero.
\<close>

theorem scanner_counts:
  assumes "getAvailableServers e = Inr servers" and "s \<in> set servers"
  shows "(case readFile e (log_file_path s) of
            None \<Rightarrow> total_errors s = 0 \<and> recent_error_count s = 0
          | Some content \<Rightarrow>
              total_errors s = length (filter mentionsError (splitLines content))
              \<and> recent_error_count s
                  = length (filter (\<lambda>l. mentionsError l \<and> isRecent e l) (splitLines content)))
         \<and> (mentionsError line \<longleftrightarrow>
              (\<exists>a b. line = a @ ascii ''ERROR'' @ b) \<or> (\<exists>a b. line = a @ ascii ''error'' @ b))
         \<and> (isRecent e line \<longleftrightarrow>
              (\<exists>ts r t. line = ts @ r \<and> matchTimestamp False False line = Some (ts, r)
                 \<and> dateParse e ts = Some t \<and> now e - 24 * 60 * 60 * 1000 < t))
         \<and> (matchTimestamp False False line \<noteq> None \<longleftrightarrow>
              (\<exists>core r. line = core @ r \<and> shaped (tsCore False) core))"
proof (intro conjI)
  from getAvailableServers_names [OF assms] obtain f m where s: "s = serverInfo e f m"
    by blast
  show "case readFile e (log_file_path s) of
            None \<Rightarrow> total_errors s = 0 \<and> recent_error_count s = 0
          | Some content \<Rightarrow>
              total_errors s = length (filter mentionsError (splitLines content))
              \<and> recent_error_count s
                  = length (filter (\<lambda>l. mentionsError l \<and> isRecent e l) (splitLines content))"
    by (simp add: s serverInfo_def Let_def countErrors_filter split: option.splits)
  show "mentionsError line \<longleftrightarrow>
      (\<exists>a b. line = a @ ascii ''ERROR'' @ b) \<or> (\<exists>a b. line = a @ ascii ''error'' @ b)"
    by (simp add: mentionsError_def includesStr_iff)
  have "isRecent e line \<longleftrightarrow>
      (\<exists>ts r t. line = ts @ r \<and> matchTimestamp False False line = Some (ts, r)
         \<and> dateParse e ts = Some t \<and> now e - t < 24 * 60 * 60 * 1000)"
    unfolding isRecent_iff using matchTimestamp_text by blast
  moreover have "now e - t < 24 * 60 * 60 * 1000 \<longleftrightarrow> now e - 24 * 60 * 60 * 1000 < t" for t
    by auto
  ultimately show "isRecent e line \<longleftrightarrow>
      (\<exists>ts r t. line = ts @ r \<and> matchTimestamp False False line = Some (ts, r)
         \<and> dateParse e ts = Some t \<and> now e - 24 * 60 * 60 * 1000 < t)"
    by simp
  show "matchTimestamp False False line \<noteq> None \<longleftrightarrow>
      (\<exists>core r. line = core @ r \<and> shaped (tsCore False) core)"
    by (rule matchTimestamp_bare)
qed

lemma sample_scan:
  "getAvailableServers (sampleEnv [(f, c)] dates t)
     = (if isLogFile f
        then Inr [serverInfo (sampleEnv [(f, c)] dates t) f (ascii ''2025-10-30T00:00:00.000Z'')]
        else Inr [])"
  by (simp add: getAvailableServers_def sampleEnv_def)

theorem scanner_counts_witness:
  "getAvailableServers countEnv
     = Inr [serverInfo countEnv (ascii ''mcp-server-ctx.log'') (ascii ''2025-10-30T00:00:00.000Z'')]
   \<and> readFile countEnv
         (log_file_path (serverInfo countEnv (ascii ''mcp-server-ctx.log'')
            (ascii ''2025-10-30T00:00:00.000Z'')))
       = Some countSample
   \<and> total_errors (serverInfo countEnv (ascii ''mcp-server-ctx.log'')
        (ascii ''2025-10-30T00:00:00.000Z'')) = 3
   \<and> recent_error_count (serverInfo countEnv (ascii ''mcp-server-ctx.log'')
        (ascii ''2025-10-30T00:00:00.000Z'')) = 1"
proof -
  let ?s = "serverInfo countEnv (ascii ''mcp-server-ctx.log'') (ascii ''2025-10-30T00:00:00.000Z'')"
  have log: "isLogFile (ascii ''mcp-server-ctx.log'')"
    by (simp add: isLogFile_def endsWith_def ascii_def)
  have servers: "getAvailableServers countEnv = Inr [?s]"
    unfolding countEnv_def sample_scan using log by simp
  have content: "readFile countEnv (log_file_path ?s) = Some countSample"
    by (simp add: serverInfo_def Let_def filePath_def countEnv_def sampleEnv_def ascii_def)
  have lines: "splitLines countSample
      = [ascii ''2025-10-29T18:00:46.468Z [ctx] [error] boom'',
         ascii ''2024-01-01T00:00:00 plain ERROR, long ago'',
         ascii ''Error: capitalised only'',
         ascii ''an error without a timestamp'']"
    by (simp add: countSample_def ascii_def)
  have m: "mentionsError (ascii ''2025-10-29T18:00:46.468Z [ctx] [error] boom'')"
    "mentionsError (ascii ''2024-01-01T00:00:00 plain ERROR, long ago'')"
    "\<not> mentionsError (ascii ''Error: capitalised only'')"
    "mentionsError (ascii ''an error without a timestamp'')"
    by (simp_all add: mentionsError_def ascii_def)
  have r: "isRecent countEnv (ascii ''2025-10-29T18:00:46.468Z [ctx] [error] boom'')"
    "\<not> isRecent countEnv (ascii ''2024-01-01T00:00:00 plain ERROR, long ago'')"
    "\<not> isRecent countEnv (ascii ''an error without a timestamp'')"
    by (simp_all add: isRecent_def matchTimestamp_def tsCore_def tsMillis_def lit_def
        isDigit_def countEnv_def sampleEnv_def ascii_def)
  have "?s \<in> set [?s]" by simp
  from scanner_counts [OF servers this] have
    "total_errors ?s = length (filter mentionsError (splitLines countSample))
     \<and> recent_error_count ?s
         = length (filter (\<lambda>l. mentionsError l \<and> isRecent countEnv l) (splitLines countSample))"
    by (simp add: content)
  then have "total_errors ?s = 3 \<and> recent_error_count ?s = 1"
    by (simp add: lines m r)
  with servers content show ?thesis by blast
qed

text \<open>A log whose only line is dated 2035, scanned at 2025-10-29T20:00:00Z: the line is not
  of the last 24 hours, and it is counted as recent.\<close>

theorem future_line_counted_recent:
  "getAvailableServers futureEnv
     = Inr [serverInfo futureEnv (ascii ''mcp-server-ctx.log'') (ascii ''2025-10-30T00:00:00.000Z'')]
   \<and> readFile futureEnv (ascii ''/logs/mcp-server-ctx.log'')
       = Some (ascii ''2035-01-01T00:00:00.000Z [ctx] [error] not yet'')
   \<and> dateParse futureEnv (ascii ''2035-01-01T00:00:00.000Z'') = Some 2051222400000
   \<and> now futureEnv = 1761768000000
   \<and> now futureEnv < 2051222400000
   \<and> total_errors (serverInfo futureEnv (ascii ''mcp-server-ctx.log'')
        (ascii ''2025-10-30T00:00:00.000Z'')) = 1
   \<and> recent_error_count (serverInfo futureEnv (ascii ''mcp-server-ctx.log'')
        (ascii ''2025-10-30T00:00:00.000Z'')) = 1"
proof (intro conjI)
  have log: "isLogFile (ascii ''mcp-server-ctx.log'')"
    by (simp add: isLogFile_def endsWith_def ascii_def)
  show "getAvailableServers futureEnv
     = Inr [serverInfo futureEnv (ascii ''mcp-server-ctx.log'') (ascii ''2025-10-30T00:00:00.000Z'')]"
    unfolding futureEnv_def sample_scan using log by simp
  show "readFile futureEnv (ascii ''/logs/mcp-server-ctx.log'')
       = Some (ascii ''2035-01-01T00:00:00.000Z [ctx] [error] not yet'')"
    by (simp add: futureEnv_def sampleEnv_def ascii_def)
  show "dateParse futureEnv (ascii ''2035-01-01T00:00:00.000Z'') = Some 2051222400000"
    by (simp add: futureEnv_def sampleEnv_def)
  show "now futureEnv = 1761768000000" "now futureEnv < 2051222400000"
    by (simp_all add: futureEnv_def sampleEnv_def)
  show "total_errors (serverInfo futureEnv (ascii ''mcp-server-ctx.log'')
        (ascii ''2025-10-30T00:00:00.000Z'')) = 1"
    "recent_error_count (serverInfo futureEnv (ascii ''mcp-server-ctx.log'')
        (ascii ''2025-10-30T00:00:00.000Z'')) = 1"
    by (simp_all add: serverInfo_def Let_def filePath_def futureEnv_def sampleEnv_def
        mentionsError_def isRecent_def matchTimestamp_def tsCore_def tsMillis_def lit_def
        isDigit_def ascii_def)
qed

subsection \<open>Failures of getRecentErrors and analyzeError\<close>

lemma findLogPath_alt:
  "findLogPath e serverName
     = (case getAvailableServers e of
          Inl err \<Rightarrow> Inl err
        | Inr servers \<Rightarrow> Inr (map_option log_file_path (findServer servers serverName)))"
  by (simp add: findLogPath_def split: sum.splits option.splits)

lemma findLogPath_Inl: "findLogPath e serverName = Inl err \<longleftrightarrow> getAvailableServers e = Inl err"
  by (auto simp: findLogPath_alt split: sum.splits)

lemma findLogPath_Inr:
  "findLogPath e serverName = Inr r \<Longrightarrow> \<exists>servers. getAvailableServers e = Inr servers"
  by (auto simp: findLogPath_alt split: sum.splits)

lemma findLogPath_nonempty:
  assumes "findLogPath e serverName = Inr (Some p)"
  shows "p \<noteq> []"
proof -
  from assms obtain servers s where servers: "getAvailableServers e = Inr servers"
    and f: "find (nameMatches serverName) servers = Some s" and p: "p = log_file_path s"
    by (auto simp: findLogPath_alt findServer_def split: sum.splits)
  from f have "s \<in> set servers" by (auto simp: find_Some_iff)
  from getAvailableServers_names [OF servers this] obtain f' m where "s = serverInfo e f' m"
    by blast
  then show ?thesis by (simp add: p log_file_path_serverInfo filePath_def)
qed

lemma getRecentErrors_cases:
  "getRecentErrors e serverName limit toolName hours =
     (case findLogPath e serverName of
        Inl err \<Rightarrow> Inl err
      | Inr None \<Rightarrow> Inl (throwNotFound e serverName)
      | Inr (Some p) \<Rightarrow>
          (case readFile e p of
             None \<Rightarrow> Inl (ReadFailure p)
           | Some content \<Rightarrow>
               Inr (rev (scanLines e serverName limit toolName hours (splitLines content) []))))"
  using findLogPath_nonempty [of e serverName]
  by (auto simp: getRecentErrors_def getErrorsFromTextLog_def split: sum.splits option.splits)

text \<open>
  Claim C4, as the code has it. \<open>getRecentErrors\<close> throws the not-found error exactly when
  the scan of the directory returns and the identifier resolves to none of its servers, and
  the message then lists the server names of the scanner. When \<open>fs.readdirSync\<close> or
  \<open>fs.statSync\<close> throws during the scan, both calls fail with that error, whatever the
  identifier. When the identifier resolves, \<open>getRecentErrors\<close> returns entries if the file
  can be read and otherwise fails with the error of the read; and \<open>analyzeError\<close> returns
  null when the entries came back and the lower-cased search text is in none of their
  lower-cased messages.
\<close>

theorem failure_cases:
  "((\<exists>msg. getRecentErrors e serverName limit toolName hours = Inl (NotFound msg))
      \<longleftrightarrow> findLogPath e serverName = Inr None)
   \<and> (findLogPath e serverName = Inr None \<longrightarrow>
        (\<exists>servers. getAvailableServers e = Inr servers
           \<and> getRecentErrors e serverName limit toolName hours
               = Inl (NotFound
                   (ascii ''Log file not found for server: '' @ serverName
                     @ ascii ''. Available servers: ''
                     @ join (ascii '', '') (map server_name servers)))))
   \<and> (findLogPath e serverName = Inr (Some p) \<longrightarrow>
        (case readFile e p of
           None \<Rightarrow> getRecentErrors e serverName limit toolName hours = Inl (ReadFailure p)
         | Some content \<Rightarrow> \<exists>errors. getRecentErrors e serverName limit toolName hours = Inr errors))
   \<and> (getAvailableServers e = Inl err \<longrightarrow>
        (err = ReaddirFailure \<or> (\<exists>q. err = StatFailure q))
        \<and> getRecentErrors e serverName limit toolName hours = Inl err
        \<and> analyzeError e serverName errorMessage includeStackTrace = Inl err)
   \<and> (getRecentErrors e serverName MAX_LOG_SCAN_LIMIT None None = Inr errors
        \<and> (\<forall>x \<in> set errors. \<not> includesStr (toLowerCase (lowerU e) (message x))
                                   (toLowerCase (lowerU e) errorMessage))
      \<longrightarrow> analyzeError e serverName errorMessage includeStackTrace = Inr None)"
proof (intro conjI impI)
  show "(\<exists>msg. getRecentErrors e serverName limit toolName hours = Inl (NotFound msg))
      \<longleftrightarrow> findLogPath e serverName = Inr None"
  proof
    assume "\<exists>msg. getRecentErrors e serverName limit toolName hours = Inl (NotFound msg)"
    then obtain msg where m: "getRecentErrors e serverName limit toolName hours = Inl (NotFound msg)"
      by blast
    show "findLogPath e serverName = Inr None"
    proof (cases "findLogPath e serverName")
      case (Inl err)
      then have "getAvailableServers e = Inl err" by (simp add: findLogPath_Inl)
      from getAvailableServers_error [OF this] m Inl show ?thesis
        by (auto simp: getRecentErrors_cases)
    next
      case (Inr r)
      with m show ?thesis by (cases r) (auto simp: getRecentErrors_cases split: option.splits)
    qed
  next
    assume n: "findLogPath e serverName = Inr None"
    from findLogPath_Inr [OF n] obtain servers where "getAvailableServers e = Inr servers"
      by blast
    with n show "\<exists>msg. getRecentErrors e serverName limit toolName hours = Inl (NotFound msg)"
      by (simp add: getRecentErrors_cases throwNotFound_def)
  qed
  show "\<exists>servers. getAvailableServers e = Inr servers
           \<and> getRecentErrors e serverName limit toolName hours
               = Inl (NotFound
                   (ascii ''Log file not found for server: '' @ serverName
                     @ ascii ''. Available servers: ''
                     @ join (ascii '', '') (map server_name servers)))"
    if n: "findLogPath e serverName = Inr None"
  proof -
    from findLogPath_Inr [OF n] obtain servers where "getAvailableServers e = Inr servers"
      by blast
    with n show ?thesis
      by (simp add: getRecentErrors_cases throwNotFound_def notFoundMessage_def)
  qed
  show "case readFile e p of
           None \<Rightarrow> getRecentErrors e serverName limit toolName hours = Inl (ReadFailure p)
         | Some content \<Rightarrow> \<exists>errors. getRecentErrors e serverName limit toolName hours = Inr errors"
    if "findLogPath e serverName = Inr (Some p)"
    using that by (simp add: getRecentErrors_cases split: option.splits)
  assume err: "getAvailableServers e = Inl err"
  show "err = ReaddirFailure \<or> (\<exists>q. err = StatFailure q)"
    using err by (rule getAvailableServers_error)
  from err have f: "findLogPath e n = Inl err" for n by (simp add: findLogPath_Inl)
  show "getRecentErrors e serverName limit toolName hours = Inl err"
    by (simp add: getRecentErrors_cases f)
  show "analyzeError e serverName errorMessage includeStackTrace = Inl err"
    by (simp add: analyzeError_def getRecentErrors_cases f)
next
  show "analyzeError e serverName errorMessage includeStackTrace = Inr None"
    if "getRecentErrors e serverName MAX_LOG_SCAN_LIMIT None None = Inr errors
        \<and> (\<forall>x \<in> set errors. \<not> includesStr (toLowerCase (lowerU e) (message x))
                                   (toLowerCase (lowerU e) errorMessage))"
  proof -
    from that have "find (\<lambda>x. includesStr (toLowerCase (lowerU e) (message x))
                             (toLowerCase (lowerU e) errorMessage)) errors = None"
      by (simp add: find_None_iff)
    with that show ?thesis by (simp add: analyzeError_def)
  qed
qed

lemmas extractor_eval =
  getErrorsFromTextLog_def tooOld_def toolMismatch_def mkEntry_def testError_def trim_def
  toLowerCase_def

lemma failureEnv_servers:
  "map_sum id (map server_name) (getAvailableServers failureEnv)
     = Inr [ascii ''slack'', ascii ''github'']"
  "map_sum id (map log_file_path) (getAvailableServers failureEnv)
     = Inr [ascii ''/logs/mcp-server-slack.log'', ascii ''/logs/mcp-server-github.log'']"
  by (simp_all add: failureEnv_def scanner_eval)

lemma failureEnv_paths:
  "findLogPath failureEnv (ascii ''jira'') = Inr None"
  "findLogPath failureEnv (ascii ''slack'') = Inr (Some (ascii ''/logs/mcp-server-slack.log''))"
  "findLogPath failureEnv (ascii ''github'') = Inr (Some (ascii ''/logs/mcp-server-github.log''))"
  by (simp_all add: failureEnv_def scanner_eval resolve_eval)

lemma failureEnv_files:
  "readFile failureEnv (ascii ''/logs/mcp-server-slack.log'')
     = Some (ascii ''2025-10-29T18:00:46.468Z [slack] [error] missing_scope: chat:write'')"
  "readFile failureEnv (ascii ''/logs/mcp-server-github.log'') = None"
  by (simp_all add: failureEnv_def sampleEnv_def ascii_def)

lemma failureEnv_slack:
  "getRecentErrors failureEnv (ascii ''slack'') MAX_LOG_SCAN_LIMIT None None
     = Inr [mkEntry (ascii ''slack'') (ascii ''2025-10-29T18:00:46.468Z'') (ascii ''slack'')
              (ascii ''missing_scope: chat:write'')]"
  unfolding getRecentErrors_cases failureEnv_paths
  by (simp add: failureEnv_files MAX_LOG_SCAN_LIMIT_def)
    (simp add: regex_eval extractor_eval)

theorem failure_cases_witness:
  "findLogPath failureEnv (ascii ''jira'') = Inr None
   \<and> getRecentErrors failureEnv (ascii ''jira'') 10 None None
       = Inl (NotFound (ascii ''Log file not found for server: jira. Available servers: slack, github''))
   \<and> findLogPath failureEnv (ascii ''slack'') = Inr (Some (ascii ''/logs/mcp-server-slack.log''))
   \<and> (\<exists>errors. getRecentErrors failureEnv (ascii ''slack'') 10 None None = Inr errors)
   \<and> analyzeError failureEnv (ascii ''slack'') (ascii ''Timeout'') False = Inr None
   \<and> getAvailableServers danglingEnv = Inl (StatFailure (ascii ''/logs/mcp-server-github.log''))
   \<and> getRecentErrors danglingEnv (ascii ''jira'') 10 None None
       = Inl (StatFailure (ascii ''/logs/mcp-server-github.log''))"
proof -
  from failure_cases [of failureEnv "ascii ''jira''" 10 None None]
  obtain servers where servers: "getAvailableServers failureEnv = Inr servers"
    and thrown: "getRecentErrors failureEnv (ascii ''jira'') 10 None None
      = Inl (NotFound (ascii ''Log file not found for server: '' @ ascii ''jira''
               @ ascii ''. Available servers: '' @ join (ascii '', '') (map server_name servers)))"
    using failureEnv_paths(1) by blast
  from servers failureEnv_servers(1) have "map server_name servers = [ascii ''slack'', ascii ''github'']"
    by simp
  with thrown have nf: "getRecentErrors failureEnv (ascii ''jira'') 10 None None
       = Inl (NotFound (ascii ''Log file not found for server: jira. Available servers: slack, github''))"
    by (simp add: ascii_def)
  have ok: "\<exists>errors. getRecentErrors failureEnv (ascii ''slack'') 10 None None = Inr errors"
    using failure_cases [of failureEnv "ascii ''slack''" 10 None None
        "ascii ''/logs/mcp-server-slack.log''"]
    by (simp add: failureEnv_paths failureEnv_files)
  have "\<forall>x \<in> set [mkEntry (ascii ''slack'') (ascii ''2025-10-29T18:00:46.468Z'') (ascii ''slack'')
              (ascii ''missing_scope: chat:write'')].
          \<not> includesStr (toLowerCase (lowerU failureEnv) (message x))
               (toLowerCase (lowerU failureEnv) (ascii ''Timeout''))"
    by (simp add: mkEntry_def toLowerCase_def asciiLower_def ascii_def)
  with failureEnv_slack
  have null: "analyzeError failureEnv (ascii ''slack'') (ascii ''Timeout'') False = Inr None"
    using failure_cases [where e = failureEnv and serverName = "ascii ''slack''"
        and errorMessage = "ascii ''Timeout''" and includeStackTrace = False
        and errors = "[mkEntry (ascii ''slack'') (ascii ''2025-10-29T18:00:46.468Z'')
              (ascii ''slack'') (ascii ''missing_scope: chat:write'')]"]
    by blast
  have d: "getAvailableServers danglingEnv = Inl (StatFailure (ascii ''/logs/mcp-server-github.log''))"
    by (simp add: danglingEnv_def failureEnv_def scanner_eval)
  from failure_cases [where e = danglingEnv and serverName = "ascii ''jira''" and limit = 10
      and toolName = None and hours = None
      and err = "StatFailure (ascii ''/logs/mcp-server-github.log'')"] d
  have dj: "getRecentErrors danglingEnv (ascii ''jira'') 10 None None
       = Inl (StatFailure (ascii ''/logs/mcp-server-github.log''))"
    by blast
  from nf ok null d dj show ?thesis by (simp add: failureEnv_paths)
qed

text \<open>The second log is listed and resolves, yet cannot be read: both calls fail, and not
  with the not-found error. And when the entry of the second log is a link to nothing, so
  that \<open>fs.statSync\<close> throws, the first server cannot be queried either, though its
  identifier would resolve.\<close>

theorem unreadable_log_fails:
  "findLogPath failureEnv (ascii ''github'') = Inr (Some (ascii ''/logs/mcp-server-github.log''))
   \<and> getRecentErrors failureEnv (ascii ''github'') 10 None None
       = Inl (ReadFailure (ascii ''/logs/mcp-server-github.log''))
   \<and> analyzeError failureEnv (ascii ''github'') (ascii ''timeout'') False
       = Inl (ReadFailure (ascii ''/logs/mcp-server-github.log''))
   \<and> getRecentErrors danglingEnv (ascii ''slack'') 10 None None
       = Inl (StatFailure (ascii ''/logs/mcp-server-github.log''))"
proof -
  have "getAvailableServers danglingEnv = Inl (StatFailure (ascii ''/logs/mcp-server-github.log''))"
    by (simp add: danglingEnv_def failureEnv_def scanner_eval)
  then have "getRecentErrors danglingEnv (ascii ''slack'') 10 None None
       = Inl (StatFailure (ascii ''/logs/mcp-server-github.log''))"
    by (simp add: getRecentErrors_cases findLogPath_alt)
  then show ?thesis
    by (simp add: analyzeError_def getRecentErrors_cases failureEnv_paths failureEnv_files)
qed

subsection \<open>The record extractor\<close>

lemma matchHeader_Nil: "matchHeader [] = None"
  by (simp add: matchHeader_def matchTimestamp_def tsCore_def)

lemma collectBody_fst:
  "fst (collectBody ls) = filter (\<lambda>l. l \<noteq> []) (takeWhile (\<lambda>l. \<not> isHeader l) ls)"
  by (induction ls) (auto simp: isHeader_def matchHeader_Nil)

lemma collectBody_snd: "snd (collectBody ls) = dropWhile (\<lambda>l. \<not> isHeader l) ls"
  by (induction ls) (auto simp: isHeader_def matchHeader_Nil)

lemma candidates_dropWhile:
  "candidates sn (dropWhile (\<lambda>l. \<not> isHeader l) ls) = candidates sn ls"
proof (induction ls)
  case Nil
  then show ?case by simp
next
  case (Cons l rest)
  show ?case
  proof (cases "isHeader l")
    case True
    then show ?thesis by simp
  next
    case False
    then have "matchHeader l = None" unfolding isHeader_def by blast
    with False Cons.IH show ?thesis by simp
  qed
qed

lemma mkEntry_sel:
  "timestamp (mkEntry sn ts srv m) = ts" "message (mkEntry sn ts srv m) = m"
  by (simp_all add: mkEntry_def)

text \<open>What one pass of the \<open>for\<close> loop does with the entries that pass the filters.\<close>

lemma scanLines_spec:
  "scanLines e sn lim tool hrs ls errors
     = errors @ take (nat (max 1 (lim - int (length errors))))
                  (filter (passes e tool hrs) (candidates sn ls))"
proof (induction "length ls" arbitrary: ls errors rule: less_induct)
  case less
  show ?case
  proof (cases ls)
    case Nil
    then show ?thesis by simp
  next
    case (Cons l rest)
    have IH: "scanLines e sn lim tool hrs ls' errors'
        = errors' @ take (nat (max 1 (lim - int (length errors'))))
                      (filter (passes e tool hrs) (candidates sn ls'))"
      if "length ls' \<le> length rest" for ls' errors'
      using less [of ls' errors'] that Cons by simp
    have drop_le: "length (dropWhile (\<lambda>l. \<not> isHeader l) rest) \<le> length rest"
      by (rule length_dropWhile_le)
    show ?thesis
    proof (cases "l = []")
      case True
      then show ?thesis using IH [of rest errors] by (simp add: Cons matchHeader_Nil)
    next
      case nonempty: False
      show ?thesis
      proof (cases "matchHeader l")
        case None
        then show ?thesis using IH [of rest errors] nonempty by (simp add: Cons)
      next
        case (Some h)
        obtain ts srv lvl first where h: "h = (ts, srv, lvl, first)" by (cases h) auto
        let ?x = "mkEntry sn ts srv (messageOf first rest)"
        have msg: "trim (join [10] (first # fst (collectBody rest))) = messageOf first rest"
          by (simp add: messageOf_def collectBody_fst)
        show ?thesis
        proof (cases "testError lvl")
          case False
          then show ?thesis using IH [of rest errors] nonempty by (simp add: Cons Some h)
        next
          case lvl: True
          show ?thesis
          proof (cases "tooOld e hrs ts")
            case True
            then show ?thesis
              using IH [of rest errors] nonempty lvl
              by (simp add: Cons Some h passes_def mkEntry_sel)
          next
            case recent: False
            show ?thesis
            proof (cases "toolMismatch e tool (messageOf first rest)")
              case True
              then show ?thesis
                using IH [OF drop_le, of errors] nonempty lvl recent
                by (simp add: Cons Some h passes_def mkEntry_sel msg collectBody_snd
                    candidates_dropWhile)
            next
              case tool: False
              have acc: "filter (passes e tool hrs) (candidates sn ls)
                  = ?x # filter (passes e tool hrs) (candidates sn rest)"
                using lvl recent tool by (simp add: Cons Some h passes_def mkEntry_sel)
              show ?thesis
              proof (cases "int (length (errors @ [?x])) \<ge> lim")
                case True
                then have "nat (max 1 (lim - int (length errors))) = 1" by simp
                moreover have "scanLines e sn lim tool hrs ls errors = errors @ [?x]"
                  using nonempty lvl recent tool True
                  by (simp add: Cons Some h msg Let_def)
                ultimately show ?thesis by (simp add: acc)
              next
                case False
                then have n: "nat (max 1 (lim - int (length errors)))
                    = Suc (nat (max 1 (lim - int (length (errors @ [?x])))))"
                  by simp
                have "scanLines e sn lim tool hrs ls errors
                    = scanLines e sn lim tool hrs (dropWhile (\<lambda>l. \<not> isHeader l) rest) (errors @ [?x])"
                  using nonempty lvl recent tool False
                  by (simp add: Cons Some h msg Let_def collectBody_snd)
                also have "\<dots> = (errors @ [?x])
                    @ take (nat (max 1 (lim - int (length (errors @ [?x])))))
                        (filter (passes e tool hrs) (candidates sn rest))"
                  using IH [OF drop_le, of "errors @ [?x]"] by (simp add: candidates_dropWhile)
                finally show ?thesis unfolding acc n by simp
              qed
            qed
          qed
        qed
      qed
    qed
  qed
qed

lemma candidates_iff:
  "x \<in> set (candidates sn ls) \<longleftrightarrow>
     (\<exists>pre line post ts srv lvl first.
        ls = pre @ line # post \<and> matchHeader line = Some (ts, srv, lvl, first)
        \<and> testError lvl \<and> x = mkEntry sn ts srv (messageOf first post))"
proof (induction ls)
  case Nil
  then show ?case by simp
next
  case (Cons l rest)
  let ?here = "\<exists>ts srv lvl first. matchHeader l = Some (ts, srv, lvl, first)
        \<and> testError lvl \<and> x = mkEntry sn ts srv (messageOf first rest)"
  let ?later = "\<exists>pre line post ts srv lvl first.
        rest = pre @ line # post \<and> matchHeader line = Some (ts, srv, lvl, first)
        \<and> testError lvl \<and> x = mkEntry sn ts srv (messageOf first post)"
  have split: "(\<exists>pre line post ts srv lvl first.
        l # rest = pre @ line # post \<and> matchHeader line = Some (ts, srv, lvl, first)
        \<and> testError lvl \<and> x = mkEntry sn ts srv (messageOf first post)) \<longleftrightarrow> ?here \<or> ?later"
  proof
    assume "\<exists>pre line post ts srv lvl first.
        l # rest = pre @ line # post \<and> matchHeader line = Some (ts, srv, lvl, first)
        \<and> testError lvl \<and> x = mkEntry sn ts srv (messageOf first post)"
    then obtain pre line post ts srv lvl first where
      d: "l # rest = pre @ line # post" and
      m: "matchHeader line = Some (ts, srv, lvl, first)" "testError lvl"
         "x = mkEntry sn ts srv (messageOf first post)"
      by blast
    show "?here \<or> ?later"
    proof (cases pre)
      case Nil
      with d m show ?thesis by auto
    next
      case (Cons p pre')
      with d have "rest = pre' @ line # post" by simp
      with m show ?thesis by blast
    qed
  next
    assume "?here \<or> ?later"
    then show "\<exists>pre line post ts srv lvl first.
        l # rest = pre @ line # post \<and> matchHeader line = Some (ts, srv, lvl, first)
        \<and> testError lvl \<and> x = mkEntry sn ts srv (messageOf first post)"
    proof
      assume ?here
      then obtain ts srv lvl first where "matchHeader l = Some (ts, srv, lvl, first)"
        "testError lvl" "x = mkEntry sn ts srv (messageOf first rest)" by blast
      then have "l # rest = [] @ l # rest \<and> matchHeader l = Some (ts, srv, lvl, first)
        \<and> testError lvl \<and> x = mkEntry sn ts srv (messageOf first rest)" by simp
      then show ?thesis by blast
    next
      assume ?later
      then obtain pre line post ts srv lvl first where
        "rest = pre @ line # post" "matchHeader line = Some (ts, srv, lvl, first)"
        "testError lvl" "x = mkEntry sn ts srv (messageOf first post)" by blast
      then have "l # rest = (l # pre) @ line # post \<and> matchHeader line = Some (ts, srv, lvl, first)
        \<and> testError lvl \<and> x = mkEntry sn ts srv (messageOf first post)" by simp
      then show ?thesis by blast
    qed
  qed
  have "x \<in> set (candidates sn (l # rest)) \<longleftrightarrow> ?here \<or> x \<in> set (candidates sn rest)"
    by (auto split: option.splits)
  then show ?case unfolding split Cons.IH by simp
qed

lemma getErrorsFromTextLog_spec:
  "getErrorsFromTextLog e logPath sn lim tool hrs =
     (case readFile e logPath of
        None \<Rightarrow> Inl (ReadFailure logPath)
      | Some content \<Rightarrow>
          Inr (rev (take (nat (max 1 lim))
                 (filter (passes e tool hrs) (candidates sn (splitLines content))))))"
  by (simp add: getErrorsFromTextLog_def scanLines_spec split: option.splits)

text \<open>
  Claim C1. The extractor returns, in reverse, the entries of the error headers of the file
  that pass the filters, up to the cap. The entry of an error header has as its message
  the rest of the header line followed by the lines up to the next header line, empty
  lines left out, joined by line feeds and trimmed; and every entry returned is the entry
  of an error header of the file.
\<close>

theorem extractor_messages:
  "getErrorsFromTextLog e logPath sn lim tool hrs =
     (case readFile e logPath of
        None \<Rightarrow> Inl (ReadFailure logPath)
      | Some content \<Rightarrow>
          Inr (rev (take (nat (max 1 lim))
                 (filter (passes e tool hrs) (candidates sn (splitLines content))))))
   \<and> (x \<in> set (candidates sn ls) \<longleftrightarrow>
        (\<exists>pre line post ts srv lvl restOfLine.
           ls = pre @ line # post \<and> matchHeader line = Some (ts, srv, lvl, restOfLine)
           \<and> testError lvl
           \<and> x = mkEntry sn ts srv
                 (trim (join [10] (restOfLine
                    # filter (\<lambda>l. l \<noteq> []) (takeWhile (\<lambda>l. \<not> isHeader l) post))))))
   \<and> (getErrorsFromTextLog e logPath sn lim tool hrs = Inr entries \<and> y \<in> set entries
      \<longrightarrow> (\<exists>content pre line post ts srv lvl restOfLine.
            readFile e logPath = Some content \<and> splitLines content = pre @ line # post
            \<and> matchHeader line = Some (ts, srv, lvl, restOfLine) \<and> testError lvl
            \<and> timestamp y = ts
            \<and> message y
                = trim (join [10] (restOfLine
                    # filter (\<lambda>l. l \<noteq> []) (takeWhile (\<lambda>l. \<not> isHeader l) post)))))"
proof (intro conjI impI)
  show "getErrorsFromTextLog e logPath sn lim tool hrs =
     (case readFile e logPath of
        None \<Rightarrow> Inl (ReadFailure logPath)
      | Some content \<Rightarrow>
          Inr (rev (take (nat (max 1 lim))
                 (filter (passes e tool hrs) (candidates sn (splitLines content))))))"
    by (rule getErrorsFromTextLog_spec)
  show "x \<in> set (candidates sn ls) \<longleftrightarrow>
        (\<exists>pre line post ts srv lvl restOfLine.
           ls = pre @ line # post \<and> matchHeader line = Some (ts, srv, lvl, restOfLine)
           \<and> testError lvl
           \<and> x = mkEntry sn ts srv
                 (trim (join [10] (restOfLine
                    # filter (\<lambda>l. l \<noteq> []) (takeWhile (\<lambda>l. \<not> isHeader l) post)))))"
    using candidates_iff [of x sn ls] by (simp add: messageOf_def)
  assume a: "getErrorsFromTextLog e logPath sn lim tool hrs = Inr entries \<and> y \<in> set entries"
  then obtain content where c: "readFile e logPath = Some content"
    and entries: "entries = rev (take (nat (max 1 lim))
                 (filter (passes e tool hrs) (candidates sn (splitLines content))))"
    by (auto simp: getErrorsFromTextLog_spec split: option.splits)
  from a entries have "y \<in> set (candidates sn (splitLines content))"
    by (auto dest: in_set_takeD)
  then obtain pre line post ts srv lvl restOfLine where
    "splitLines content = pre @ line # post" "matchHeader line = Some (ts, srv, lvl, restOfLine)"
    "testError lvl" "y = mkEntry sn ts srv (messageOf restOfLine post)"
    unfolding candidates_iff by blast
  then have "readFile e logPath = Some content \<and> splitLines content = pre @ line # post
            \<and> matchHeader line = Some (ts, srv, lvl, restOfLine) \<and> testError lvl
            \<and> timestamp y = ts
            \<and> message y
                = trim (join [10] (restOfLine
                    # filter (\<lambda>l. l \<noteq> []) (takeWhile (\<lambda>l. \<not> isHeader l) post)))"
    using c by (simp add: mkEntry_sel messageOf_def)
  then show "\<exists>content pre line post ts srv lvl restOfLine.
            readFile e logPath = Some content \<and> splitLines content = pre @ line # post
            \<and> matchHeader line = Some (ts, srv, lvl, restOfLine) \<and> testError lvl
            \<and> timestamp y = ts
            \<and> message y
                = trim (join [10] (restOfLine
                    # filter (\<lambda>l. l \<noteq> []) (takeWhile (\<lambda>l. \<not> isHeader l) post)))"
    by blast
qed

lemma extractSample_lines:
  "splitLines extractSample
     = [ascii ''2025-10-29T18:00:46.468Z [ctx] [error] Server disconnected'',
        ascii ''  at foo'', [], ascii ''  at bar'',
        ascii ''2025-10-29T18:00:47.000Z [ctx] [info] ok'', ascii ''stray'',
        ascii ''2025-10-29T18:00:48.000Z [ctx] [ERROR] again'']"
  by (simp add: extractSample_def ascii_def)

lemma extractSample_candidates:
  "candidates (ascii ''ctx'') (splitLines extractSample)
     = [mkEntry (ascii ''ctx'') (ascii ''2025-10-29T18:00:46.468Z'') (ascii ''ctx'')
          (ascii ''Server disconnected'' @ [10] @ ascii ''  at foo'' @ [10] @ ascii ''  at bar''),
        mkEntry (ascii ''ctx'') (ascii ''2025-10-29T18:00:48.000Z'') (ascii ''ctx'')
          (ascii ''again'')]"
  unfolding extractSample_lines
  by (simp add: messageOf_def regex_eval testError_def trim_def)

lemma extractSample_run:
  "scanLines extractEnv (ascii ''ctx'') 10 None None (splitLines extractSample) []
     = [mkEntry (ascii ''ctx'') (ascii ''2025-10-29T18:00:46.468Z'') (ascii ''ctx'')
          (ascii ''Server disconnected'' @ [10] @ ascii ''  at foo'' @ [10] @ ascii ''  at bar''),
        mkEntry (ascii ''ctx'') (ascii ''2025-10-29T18:00:48.000Z'') (ascii ''ctx'')
          (ascii ''again'')]"
  unfolding extractSample_lines
  by (simp add: regex_eval extractor_eval)

theorem extractor_messages_witness:
  "readFile extractEnv (ascii ''/logs/mcp-server-ctx.log'') = Some extractSample
   \<and> getErrorsFromTextLog extractEnv (ascii ''/logs/mcp-server-ctx.log'') (ascii ''ctx'') 10 None None
       = Inr [mkEntry (ascii ''ctx'') (ascii ''2025-10-29T18:00:48.000Z'') (ascii ''ctx'')
                (ascii ''again''),
              mkEntry (ascii ''ctx'') (ascii ''2025-10-29T18:00:46.468Z'') (ascii ''ctx'')
                (ascii ''Server disconnected'' @ [10] @ ascii ''  at foo'' @ [10]
                   @ ascii ''  at bar'')]"
proof -
  have c: "readFile extractEnv (ascii ''/logs/mcp-server-ctx.log'') = Some extractSample"
    by (simp add: extractEnv_def sampleEnv_def ascii_def)
  have "getErrorsFromTextLog extractEnv (ascii ''/logs/mcp-server-ctx.log'') (ascii ''ctx'') 10 None None
      = Inr (rev (take (nat (max 1 10))
               (filter (passes extractEnv None None)
                  (candidates (ascii ''ctx'') (splitLines extractSample)))))"
    using extractor_messages [of extractEnv "ascii ''/logs/mcp-server-ctx.log''" "ascii ''ctx''"
        10 None None] by (simp add: c)
  then show ?thesis
    using c by (simp add: extractSample_candidates passes_def tooOld_def toolMismatch_def)
qed

subsection \<open>The cap and the order of getRecentErrors\<close>

lemma sorted_desc_rev_take_filter:
  assumes "sorted (map f xs)"
  shows "sorted_wrt (\<lambda>a b. b \<le> a) (map f (rev (take n (filter P xs))))"
proof -
  from assms have "sorted_wrt (\<lambda>x y. f x \<le> f y) xs" by (simp add: sorted_wrt_map)
  then have "sorted_wrt (\<lambda>x y. f x \<le> f y) (take n (filter P xs))"
    by (intro sorted_wrt_take sorted_wrt_filter)
  then have "sorted (map f (take n (filter P xs)))" by (simp add: sorted_wrt_map)
  then have "sorted_wrt (\<lambda>a b. b \<le> a) (rev (map f (take n (filter P xs))))"
    by (simp add: sorted_wrt_rev)
  then show ?thesis by (simp add: rev_map)
qed

text \<open>
  Claim C3, as the code has it. With a limit of at least 1, \<open>getRecentErrors\<close> returns at
  most \<open>limit\<close> entries, whatever the filters (for any limit, at most \<open>max 1 limit\<close>). The
  entries come in reverse file order; their timestamps, compared as strings, do not
  increase from first to last when the error headers of the file are in ascending order of
  timestamp.
\<close>

theorem recentErrors_cap_and_order:
  assumes "getRecentErrors e serverName limit toolName hours = Inr entries"
  shows "(1 \<le> limit \<longrightarrow> int (length entries) \<le> limit)
         \<and> length entries \<le> nat (max 1 limit)
         \<and> (\<exists>p content.
               findLogPath e serverName = Inr (Some p) \<and> readFile e p = Some content
               \<and> entries = rev (take (nat (max 1 limit))
                    (filter (passes e toolName hours) (candidates serverName (splitLines content))))
               \<and> (sorted (map timestamp (candidates serverName (splitLines content)))
                    \<longrightarrow> sorted_wrt (\<lambda>a b. b \<le> a) (map timestamp entries)))"
proof -
  from assms obtain p content where p: "findLogPath e serverName = Inr (Some p)"
    and c: "readFile e p = Some content"
    and entries: "entries = rev (scanLines e serverName limit toolName hours (splitLines content) [])"
    by (auto simp: getRecentErrors_cases split: sum.splits option.splits)
  let ?c = "candidates serverName (splitLines content)"
  have spec: "entries = rev (take (nat (max 1 limit)) (filter (passes e toolName hours) ?c))"
    by (simp add: entries scanLines_spec)
  then have len: "length entries \<le> nat (max 1 limit)" by simp
  then have "1 \<le> limit \<longrightarrow> int (length entries) \<le> limit" by auto
  moreover have "sorted (map timestamp ?c) \<longrightarrow> sorted_wrt (\<lambda>a b. b \<le> a) (map timestamp entries)"
    unfolding spec using sorted_desc_rev_take_filter by blast
  ultimately show ?thesis using len p c spec by blast
qed

lemma orderEnv_paths:
  "findLogPath orderEnv (ascii ''asc'') = Inr (Some (ascii ''/logs/mcp-server-asc.log''))"
  "findLogPath orderEnv (ascii ''desc'') = Inr (Some (ascii ''/logs/mcp-server-desc.log''))"
  by (simp_all add: orderEnv_def scanner_eval resolve_eval)

lemma orderEnv_files:
  "readFile orderEnv (ascii ''/logs/mcp-server-asc.log'')
     = Some (ascii ''2025-10-28T09:00:00.000Z [a] [error] first'' @ [10]
               @ ascii ''2025-10-29T09:00:00.000Z [a] [error] second'')"
  "readFile orderEnv (ascii ''/logs/mcp-server-desc.log'')
     = Some (ascii ''2025-10-29T09:00:00.000Z [d] [error] first'' @ [10]
               @ ascii ''2025-10-28T09:00:00.000Z [d] [error] second'')"
  by (simp_all add: orderEnv_def sampleEnv_def ascii_def)

lemma orderEnv_asc:
  "getRecentErrors orderEnv (ascii ''asc'') 10 None None
     = Inr [mkEntry (ascii ''asc'') (ascii ''2025-10-29T09:00:00.000Z'') (ascii ''a'') (ascii ''second''),
            mkEntry (ascii ''asc'') (ascii ''2025-10-28T09:00:00.000Z'') (ascii ''a'') (ascii ''first'')]"
  "getRecentErrors orderEnv (ascii ''asc'') 1 None None
     = Inr [mkEntry (ascii ''asc'') (ascii ''2025-10-28T09:00:00.000Z'') (ascii ''a'') (ascii ''first'')]"
  unfolding getRecentErrors_cases orderEnv_paths
  by (simp_all add: orderEnv_files) (simp_all add: regex_eval extractor_eval)

lemma orderEnv_asc_candidates:
  "map timestamp (candidates (ascii ''asc'')
       (splitLines (ascii ''2025-10-28T09:00:00.000Z [a] [error] first'' @ [10]
               @ ascii ''2025-10-29T09:00:00.000Z [a] [error] second'')))
     = [ascii ''2025-10-28T09:00:00.000Z'', ascii ''2025-10-29T09:00:00.000Z'']"
  by (simp add: regex_eval testError_def mkEntry_def)

theorem recentErrors_cap_and_order_witness:
  "getRecentErrors orderEnv (ascii ''asc'') 10 None None
     = Inr [mkEntry (ascii ''asc'') (ascii ''2025-10-29T09:00:00.000Z'') (ascii ''a'') (ascii ''second''),
            mkEntry (ascii ''asc'') (ascii ''2025-10-28T09:00:00.000Z'') (ascii ''a'') (ascii ''first'')]
   \<and> sorted [ascii ''2025-10-28T09:00:00.000Z'', ascii ''2025-10-29T09:00:00.000Z'']
   \<and> sorted_wrt (\<lambda>a b. b \<le> a)
        (map timestamp
           [mkEntry (ascii ''asc'') (ascii ''2025-10-29T09:00:00.000Z'') (ascii ''a'') (ascii ''second''),
            mkEntry (ascii ''asc'') (ascii ''2025-10-28T09:00:00.000Z'') (ascii ''a'') (ascii ''first'')])
   \<and> getRecentErrors orderEnv (ascii ''asc'') 1 None None
       = Inr [mkEntry (ascii ''asc'') (ascii ''2025-10-28T09:00:00.000Z'') (ascii ''a'') (ascii ''first'')]"
proof -
  have s: "sorted [ascii ''2025-10-28T09:00:00.000Z'', ascii ''2025-10-29T09:00:00.000Z'']"
    by (simp add: ascii_def)
  from recentErrors_cap_and_order [OF orderEnv_asc(1)] obtain p content where
    p: "findLogPath orderEnv (ascii ''asc'') = Inr (Some p)" and c: "readFile orderEnv p = Some content"
    and imp: "sorted (map timestamp (candidates (ascii ''asc'') (splitLines content)))
      \<longrightarrow> sorted_wrt (\<lambda>a b. b \<le> a)
        (map timestamp
           [mkEntry (ascii ''asc'') (ascii ''2025-10-29T09:00:00.000Z'') (ascii ''a'') (ascii ''second''),
            mkEntry (ascii ''asc'') (ascii ''2025-10-28T09:00:00.000Z'') (ascii ''a'') (ascii ''first'')])"
    by blast
  from p have p': "p = ascii ''/logs/mcp-server-asc.log''" by (simp add: orderEnv_paths)
  from c have "content = ascii ''2025-10-28T09:00:00.000Z [a] [error] first'' @ [10]
               @ ascii ''2025-10-29T09:00:00.000Z [a] [error] second''"
    by (simp add: p' orderEnv_files)
  with imp s have "sorted_wrt (\<lambda>a b. b \<le> a)
        (map timestamp
           [mkEntry (ascii ''asc'') (ascii ''2025-10-29T09:00:00.000Z'') (ascii ''a'') (ascii ''second''),
            mkEntry (ascii ''asc'') (ascii ''2025-10-28T09:00:00.000Z'') (ascii ''a'') (ascii ''first'')])"
    by (simp only: orderEnv_asc_candidates)
  with s orderEnv_asc show ?thesis by blast
qed

text \<open>The log in descending order: the entries come back with increasing timestamps. With
  the limit 0 one entry comes back.\<close>

theorem descending_log_unordered:
  "getRecentErrors orderEnv (ascii ''desc'') 10 None None
     = Inr [mkEntry (ascii ''desc'') (ascii ''2025-10-28T09:00:00.000Z'') (ascii ''d'') (ascii ''second''),
            mkEntry (ascii ''desc'') (ascii ''2025-10-29T09:00:00.000Z'') (ascii ''d'') (ascii ''first'')]
   \<and> ascii ''2025-10-28T09:00:00.000Z'' < ascii ''2025-10-29T09:00:00.000Z''
   \<and> getRecentErrors orderEnv (ascii ''desc'') 0 None None
     = Inr [mkEntry (ascii ''desc'') (ascii ''2025-10-29T09:00:00.000Z'') (ascii ''d'') (ascii ''first'')]"
proof (intro conjI)
  show "getRecentErrors orderEnv (ascii ''desc'') 10 None None
     = Inr [mkEntry (ascii ''desc'') (ascii ''2025-10-28T09:00:00.000Z'') (ascii ''d'') (ascii ''second''),
            mkEntry (ascii ''desc'') (ascii ''2025-10-29T09:00:00.000Z'') (ascii ''d'') (ascii ''first'')]"
    unfolding getRecentErrors_cases orderEnv_paths
    by (simp add: orderEnv_files) (simp add: regex_eval extractor_eval)
  show "ascii ''2025-10-28T09:00:00.000Z'' < ascii ''2025-10-29T09:00:00.000Z''"
    by (simp add: ascii_def)
  show "getRecentErrors orderEnv (ascii ''desc'') 0 None None
     = Inr [mkEntry (ascii ''desc'') (ascii ''2025-10-29T09:00:00.000Z'') (ascii ''d'') (ascii ''first'')]"
    unfolding getRecentErrors_cases orderEnv_paths
    by (simp add: orderEnv_files) (simp add: regex_eval extractor_eval)
qed

subsection \<open>Related errors\<close>

lemma includesStr_self: "includesStr s s"
  unfolding includesStr_iff by (metis append_Nil append_Nil2)

lemma showNat_digit: "n < 10 \<Longrightarrow> showNat n = [48 + n]"
  by (simp add: showNat.simps [of n])

lemma sample_path:
  "findLogPath (sampleEnv [(ascii ''mcp-server-s.log'', c)] dates t) (ascii ''s'')
     = Inr (Some (ascii ''/logs/mcp-server-s.log''))"
proof -
  have log: "isLogFile (ascii ''mcp-server-s.log'')"
    by (simp add: isLogFile_def endsWith_def ascii_def)
  have name: "deriveServerName (ascii ''mcp-server-s.log'') = ascii ''s''"
    by (simp add: deriveServerName_def stripExtension_def stripToLastHyphen_def endsWith_def
        isLineTerminator_def ascii_def Let_def)
  have path: "filePath (sampleEnv [(ascii ''mcp-server-s.log'', c)] dates t) (ascii ''mcp-server-s.log'')
      = ascii ''/logs/mcp-server-s.log''"
    by (simp add: filePath_def sampleEnv_def ascii_def)
  show ?thesis
    unfolding findLogPath_alt sample_scan using log
    by (simp add: findServer_def nameMatches_def server_name_serverInfo log_file_path_serverInfo
        name path)
qed

lemma sample_file:
  "readFile (sampleEnv [(ascii ''mcp-server-s.log'', Some c)] dates t)
     (ascii ''/logs/mcp-server-s.log'') = Some c"
  by (simp add: sampleEnv_def ascii_def)

lemma splitLines_line:
  "10 \<notin> set l \<Longrightarrow> splitLines (l @ 10 # rest) = l # splitLines rest"
  by (induction l) auto

lemma splitLines_last: "10 \<notin> set l \<Longrightarrow> splitLines l = [l]"
  by (induction l) auto

lemma repeatLine_no_feed: "d < 10 \<Longrightarrow> 10 \<notin> set (repeatLine d)"
  by (auto simp: repeatLine_def repeatTs_def ascii_def)

lemma lateLine_no_feed: "10 \<notin> set lateLine"
  by (simp add: lateLine_def lateTs_def ascii_def)

lemma repeatLog_lines:
  "splitLines repeatLog
     = [repeatLine 0, repeatLine 1, repeatLine 2, repeatLine 3, repeatLine 4, repeatLine 5,
        repeatLine 6, repeatLine 7, repeatLine 8, repeatLine 9]"
  by (simp add: repeatLog_def splitLines_line splitLines_last repeatLine_no_feed)

lemma elevenLog_lines:
  "splitLines elevenLog
     = [repeatLine 0, repeatLine 1, repeatLine 2, repeatLine 3, repeatLine 4, repeatLine 5,
        repeatLine 6, repeatLine 7, repeatLine 8, repeatLine 9, lateLine]"
  by (simp add: elevenLog_def repeatLog_def splitLines_line splitLines_last repeatLine_no_feed
      lateLine_no_feed)

lemma repeatLine_header:
  "d < 10 \<Longrightarrow> matchHeader (repeatLine d) = Some (repeatTs d, ascii ''s'', ascii ''error'', ascii ''boom'')"
  by (simp add: repeatLine_def repeatTs_def regex_eval)

lemma lateLine_header:
  "matchHeader lateLine = Some (lateTs, ascii ''s'', ascii ''error'', ascii ''boom'')"
  by (simp add: lateLine_def lateTs_def regex_eval)

lemma repeatLine_nonempty: "repeatLine d \<noteq> []" "lateLine \<noteq> []"
  by (simp_all add: repeatLine_def repeatTs_def lateLine_def lateTs_def ascii_def)

lemma repeatEnv_entries:
  "getRecentErrors repeatEnv (ascii ''s'') MAX_LOG_SCAN_LIMIT None None
     = Inr [repeatEntry 9, repeatEntry 8, repeatEntry 7, repeatEntry 6, repeatEntry 5,
            repeatEntry 4, repeatEntry 3, repeatEntry 2, repeatEntry 1, repeatEntry 0]"
  unfolding getRecentErrors_cases repeatEnv_def sample_path
  by (simp only: sample_file sum.simps option.simps repeatLog_lines)
    (simp add: repeatLine_header repeatLine_nonempty isHeader_def repeatEntry_def
      MAX_LOG_SCAN_LIMIT_def testError_def tooOld_def toolMismatch_def asciiLower_def ascii_def
      trim_def isSpace_def)

lemma elevenEnv_entries:
  "getRecentErrors elevenEnv (ascii ''s'') MAX_LOG_SCAN_LIMIT None None
     = Inr [lateEntry, repeatEntry 9, repeatEntry 8, repeatEntry 7, repeatEntry 6, repeatEntry 5,
            repeatEntry 4, repeatEntry 3, repeatEntry 2, repeatEntry 1, repeatEntry 0]"
  unfolding getRecentErrors_cases elevenEnv_def sample_path
  by (simp only: sample_file sum.simps option.simps elevenLog_lines)
    (simp add: repeatLine_header lateLine_header repeatLine_nonempty isHeader_def repeatEntry_def
      lateEntry_def MAX_LOG_SCAN_LIMIT_def testError_def tooOld_def toolMismatch_def
      asciiLower_def ascii_def trim_def isSpace_def)

lemma repeatTs_eq: "repeatTs a = repeatTs b \<longleftrightarrow> a = b" "repeatTs a \<noteq> lateTs"
  by (simp_all add: repeatTs_def lateTs_def ascii_def)

lemma repeatEntry_sel:
  "message (repeatEntry d) = ascii ''boom''" "timestamp (repeatEntry d) = repeatTs d"
  "(repeatEntry d)\<lparr>stack_trace := None\<rparr> = repeatEntry d"
  "message lateEntry = ascii ''boom''" "timestamp lateEntry = lateTs"
  "lateEntry\<lparr>stack_trace := None\<rparr> = lateEntry"
  by (simp_all add: repeatEntry_def lateEntry_def mkEntry_def)

text \<open>
  Claim C5, evaluated. For the log of ten error entries with the message \<open>boom\<close>,
  \<open>analyzeError\<close> on that message returns five related errors, the newest first, and the
  warning in front of the suggested actions says that the error has occurred 6 times. With
  an eleventh entry of the same message, which makes ten related entries beside the
  matched one, the warning still says 6 times: the related errors are cut to five before
  they are counted.
\<close>

theorem ten_identical_errors_warn_six:
  "getRecentErrors repeatEnv (ascii ''s'') MAX_LOG_SCAN_LIMIT None None
     = Inr [repeatEntry 9, repeatEntry 8, repeatEntry 7, repeatEntry 6, repeatEntry 5,
            repeatEntry 4, repeatEntry 3, repeatEntry 2, repeatEntry 1, repeatEntry 0]
   \<and> analyzeError repeatEnv (ascii ''s'') (ascii ''boom'') False
     = Inr (Some
         \<lparr> error = repeatEntry 9,
           root_cause = ascii ''Unknown error occurred'',
           suggested_actions =
             [[9888, 65039] @ ascii '' This error has occurred 6 times. Consider implementing a permanent fix rather than retrying.''],
           related_errors =
             [repeatEntry 8, repeatEntry 7, repeatEntry 6, repeatEntry 5, repeatEntry 4] \<rparr>)
   \<and> getRecentErrors elevenEnv (ascii ''s'') MAX_LOG_SCAN_LIMIT None None
     = Inr [lateEntry, repeatEntry 9, repeatEntry 8, repeatEntry 7, repeatEntry 6, repeatEntry 5,
            repeatEntry 4, repeatEntry 3, repeatEntry 2, repeatEntry 1, repeatEntry 0]
   \<and> analyzeError elevenEnv (ascii ''s'') (ascii ''boom'') False
     = Inr (Some
         \<lparr> error = lateEntry,
           root_cause = ascii ''Unknown error occurred'',
           suggested_actions =
             [[9888, 65039] @ ascii '' This error has occurred 6 times. Consider implementing a permanent fix rather than retrying.''],
           related_errors =
             [repeatEntry 9, repeatEntry 8, repeatEntry 7, repeatEntry 6, repeatEntry 5] \<rparr>)
   \<and> \<not> includesStr
         ([9888, 65039] @ ascii '' This error has occurred 6 times. Consider implementing a permanent fix rather than retrying.'')
         (ascii ''11 times'')"
proof (intro conjI)
  show "getRecentErrors repeatEnv (ascii ''s'') MAX_LOG_SCAN_LIMIT None None
     = Inr [repeatEntry 9, repeatEntry 8, repeatEntry 7, repeatEntry 6, repeatEntry 5,
            repeatEntry 4, repeatEntry 3, repeatEntry 2, repeatEntry 1, repeatEntry 0]"
    by (rule repeatEnv_entries)
  show "getRecentErrors elevenEnv (ascii ''s'') MAX_LOG_SCAN_LIMIT None None
     = Inr [lateEntry, repeatEntry 9, repeatEntry 8, repeatEntry 7, repeatEntry 6, repeatEntry 5,
            repeatEntry 4, repeatEntry 3, repeatEntry 2, repeatEntry 1, repeatEntry 0]"
    by (rule elevenEnv_entries)
  have lower: "toLowerCase lc (ascii ''boom'') = ascii ''boom''" for lc
    by (simp add: toLowerCase_def asciiLower_def ascii_def)
  have unknown: "classify (ascii ''boom'') = (ascii ''Unknown error occurred'', [])"
    by (simp add: classify_def ascii_def)
  show "analyzeError repeatEnv (ascii ''s'') (ascii ''boom'') False
     = Inr (Some
         \<lparr> error = repeatEntry 9,
           root_cause = ascii ''Unknown error occurred'',
           suggested_actions =
             [[9888, 65039] @ ascii '' This error has occurred 6 times. Consider implementing a permanent fix rather than retrying.''],
           related_errors =
             [repeatEntry 8, repeatEntry 7, repeatEntry 6, repeatEntry 5, repeatEntry 4] \<rparr>)"
    unfolding analyzeError_def repeatEnv_entries
    by (simp add: repeatEntry_sel repeatTs_eq lower includesStr_self generateErrorAnalysis_def
        unknown Let_def occurredWarning_def showNat_digit)
      (simp add: ascii_def)
  show "analyzeError elevenEnv (ascii ''s'') (ascii ''boom'') False
     = Inr (Some
         \<lparr> error = lateEntry,
           root_cause = ascii ''Unknown error occurred'',
           suggested_actions =
             [[9888, 65039] @ ascii '' This error has occurred 6 times. Consider implementing a permanent fix rather than retrying.''],
           related_errors =
             [repeatEntry 9, repeatEntry 8, repeatEntry 7, repeatEntry 6, repeatEntry 5] \<rparr>)"
    unfolding analyzeError_def elevenEnv_entries
    by (simp add: repeatEntry_sel repeatTs_eq lower includesStr_self generateErrorAnalysis_def
        unknown Let_def occurredWarning_def showNat_digit)
      (simp add: ascii_def)
  show "\<not> includesStr
         ([9888, 65039] @ ascii '' This error has occurred 6 times. Consider implementing a permanent fix rather than retrying.'')
         (ascii ''11 times'')"
    by (simp add: ascii_def)
qed

end
